theory Spec2Isabelle
  imports Complex_Main "HOL-Library.Signed_Division"
begin

section \<open>The carousel of script.js (initializeSingleCarousel, lines 1894-2570)\<close>

text \<open>
  One carousel instance is the closure created by \<^verbatim>\<open>initializeSingleCarousel\<close>. Its
  \<^verbatim>\<open>let\<close> variables, the part of the browser it talks to (the progress bar's inline style,
  the listeners on the bar, the scheduled timeouts and animation frames) and the one-shot
  \<^verbatim>\<open>advanced\<close> flags of the closures made by \<^verbatim>\<open>startAuto\<close> are the fields of one record.
  Times are JavaScript numbers in milliseconds, idealised as reals. Handles returned by
  \<^verbatim>\<open>setTimeout\<close> and \<^verbatim>\<open>requestAnimationFrame\<close> are positive, so the source's truthiness test
  \<^verbatim>\<open>if (timer)\<close> is \<open>timer s \<noteq> None\<close>. DOM calls are taken not to throw, so the
  \<^verbatim>\<open>try/catch\<close> wrappers have no catch branch in the model.

  \<open>nslides\<close> is \<^verbatim>\<open>slides.length\<close> and \<open>hasFill\<close> says whether the gallery has a
  progress bar (\<^verbatim>\<open>progressFill\<close> is not null). \<open>cleanupFns\<close> says whether the set of
  cleanup functions still holds the one that disconnects the ResizeObserver, whose own
  callback only sizes the bar's track and is left out. \<open>advancedCycles\<close> lists the
  closures whose \<^verbatim>\<open>advanced\<close> flag is true. A width is a percentage the code wrote or a
  length in pixels read back from the computed style; \<open>env\<close> carries what an operation
  reads from the browser: \<^verbatim>\<open>performance.now()\<close> and the bar's computed width.
\<close>

datatype width = Percent real | Px real

datatype transition = NoTransition | Linear real

datatype task = Fallback nat | InitTimer

record env =
  now :: real
  computedWidth :: real

record carousel =
  nslides :: nat
  hasFill :: bool
  index :: int
  timer :: "nat option"
  animationFrame :: "nat option"
  startTs :: real
  pauseElapsed :: real
  paused :: bool
  viewportPaused :: bool
  initialized :: bool
  destroyed :: bool
  pausedByFullscreen :: bool
  shouldAutoStart :: bool
  isInViewport :: bool
  progressEndHandler :: "nat option"
  cleanupFns :: bool
  cleanupTimeouts :: "nat list"
  cleanupRafs :: "nat list"
  advancedCycles :: "nat list"
  fillWidth :: width
  fillTransition :: transition
  listeners :: "nat list"
  timeouts :: "(nat \<times> task \<times> real) list"
  rafs :: "nat list"
  resizeObserving :: bool
  nextId :: nat

definition intervalMs :: real where
  "intervalMs = 5000"

text \<open>The state right after construction (lines 1916-1936 and 2475-2486).\<close>

definition newCarousel :: "nat \<Rightarrow> bool \<Rightarrow> carousel" where
  "newCarousel n hf =
     \<lparr> nslides = n, hasFill = hf, index = 0, timer = None, animationFrame = None,
       startTs = 0, pauseElapsed = 0, paused = False, viewportPaused = False,
       initialized = False, destroyed = False, pausedByFullscreen = False,
       shouldAutoStart = False, isInViewport = False, progressEndHandler = None,
       cleanupFns = True, cleanupTimeouts = [], cleanupRafs = [], advancedCycles = [],
       fillWidth = Percent 0, fillTransition = NoTransition, listeners = [],
       timeouts = [], rafs = [], resizeObserving = True, nextId = 0 \<rparr>"

subsection \<open>Browser primitives\<close>

definition clearTimeout :: "nat \<Rightarrow> carousel \<Rightarrow> carousel" where
  "clearTimeout h s = s\<lparr>timeouts := filter (\<lambda>x. fst x \<noteq> h) (timeouts s)\<rparr>"

definition cancelAnimationFrame :: "nat \<Rightarrow> carousel \<Rightarrow> carousel" where
  "cancelAnimationFrame r s = s\<lparr>rafs := removeAll r (rafs s)\<rparr>"

definition removeEventListener :: "nat \<Rightarrow> carousel \<Rightarrow> carousel" where
  "removeEventListener c s = s\<lparr>listeners := removeAll c (listeners s)\<rparr>"

subsection \<open>Slide changes\<close>

definition validateState :: "carousel \<Rightarrow> bool" where
  "validateState s = (\<not> destroyed s)"

text \<open>
  \<^verbatim>\<open>setActive\<close> (lines 1946-1982). JavaScript's \<^verbatim>\<open>%\<close> truncates towards zero: it is
  \<open>smod\<close>. The class toggles on slides and dots are a function of \<open>index\<close>.
\<close>

definition setActive :: "int \<Rightarrow> bool \<Rightarrow> carousel \<Rightarrow> carousel" where
  "setActive i resetProgress s =
     (if \<not> validateState s then s
      else let newIndex = (i + int (nslides s)) smod int (nslides s) in
        if newIndex = index s \<and> \<not> resetProgress then s
        else let s1 = s\<lparr>index := newIndex\<rparr> in
          if resetProgress \<and> hasFill s1
          then s1\<lparr>fillTransition := NoTransition, fillWidth := Percent 0\<rparr>
          else s1)"

text \<open>\<^verbatim>\<open>stopAuto\<close> (lines 2018-2060).\<close>

definition stopAuto :: "env \<Rightarrow> carousel \<Rightarrow> carousel" where
  "stopAuto e s =
     (if \<not> validateState s then s
      else let
        s1 = (case progressEndHandler s of
                None \<Rightarrow> s
              | Some c \<Rightarrow> if hasFill s
                  then (removeEventListener c s)\<lparr>progressEndHandler := None\<rparr> else s);
        s2 = (case timer s1 of
                None \<Rightarrow> s1
              | Some t \<Rightarrow> (clearTimeout t s1)
                  \<lparr>cleanupTimeouts := removeAll t (cleanupTimeouts s1), timer := None\<rparr>);
        s3 = (case animationFrame s2 of
                None \<Rightarrow> s2
              | Some r \<Rightarrow> (cancelAnimationFrame r s2)
                  \<lparr>cleanupRafs := removeAll r (cleanupRafs s2), animationFrame := None\<rparr>)
      in if hasFill s3
         then s3\<lparr>fillTransition := NoTransition, fillWidth := Px (computedWidth e)\<rparr>
         else s3)"

text \<open>\<^verbatim>\<open>completeProgressReset\<close> (lines 1984-2004).\<close>

definition completeProgressReset :: "env \<Rightarrow> carousel \<Rightarrow> carousel" where
  "completeProgressReset e s =
     (if \<not> validateState s then s
      else let s1 = stopAuto e s;
               s2 = (if hasFill s1
                     then s1\<lparr>fillTransition := NoTransition, fillWidth := Percent 0\<rparr>
                     else s1)
           in s2\<lparr>pauseElapsed := 0, startTs := 0\<rparr>)"

text \<open>\<^verbatim>\<open>next\<close> and \<^verbatim>\<open>prev\<close> (lines 2006-2016).\<close>

definition nextSlide :: "env \<Rightarrow> carousel \<Rightarrow> carousel" where
  "nextSlide e s =
     (if \<not> validateState s then s
      else let s1 = completeProgressReset e s in setActive (index s1 + 1) True s1)"

definition prevSlide :: "env \<Rightarrow> carousel \<Rightarrow> carousel" where
  "prevSlide e s =
     (if \<not> validateState s then s
      else let s1 = completeProgressReset e s in setActive (index s1 - 1) True s1)"

subsection \<open>The autoplay cycle\<close>

text \<open>
  \<^verbatim>\<open>startAuto\<close> (lines 2062-2168). With a progress bar it makes a new closure \<open>c\<close> whose
  \<^verbatim>\<open>advanced\<close> flag is false, attaches the once-only \<^verbatim>\<open>transitionend\<close> listener of \<open>c\<close>,
  requests an animation frame and arms the fallback timeout of \<open>c\<close> after
  \<open>remaining + 200\<close> ms.
\<close>

definition remainingMs :: "carousel \<Rightarrow> real" where
  "remainingMs s = max 16 (intervalMs - pauseElapsed s)"

definition startAuto :: "env \<Rightarrow> carousel \<Rightarrow> carousel" where
  "startAuto e s =
     (if \<not> validateState s \<or> viewportPaused s then s
      else let
        s1 = stopAuto e s;
        remaining = remainingMs s1;
        s2 = (if hasFill s1
              then let
                currentPct = max 0 (min 1 (pauseElapsed s1 / intervalMs));
                c = Suc (nextId s1);
                r = Suc (Suc (nextId s1));
                t = Suc (Suc (Suc (nextId s1)))
              in s1\<lparr>fillWidth := Percent (currentPct * 100),
                     fillTransition := Linear remaining,
                     progressEndHandler := Some c,
                     listeners := listeners s1 @ [c],
                     animationFrame := Some r,
                     rafs := rafs s1 @ [r],
                     cleanupRafs := r # cleanupRafs s1,
                     timer := Some t,
                     timeouts := timeouts s1 @ [(t, Fallback c, remaining + 200)],
                     cleanupTimeouts := t # cleanupTimeouts s1,
                     nextId := t\<rparr>
              else s1)
      in s2\<lparr>startTs := now e - pauseElapsed s2\<rparr>)"

text \<open>
  The closure \<^verbatim>\<open>advance\<close> of cycle \<open>c\<close> (lines 2089-2117). Its block of releases
  (lines 2094-2111) is \<open>releaseCycle\<close>.
\<close>

definition releaseCycle :: "carousel \<Rightarrow> carousel" where
  "releaseCycle s =
     (let
        s1 = (case progressEndHandler s of
                None \<Rightarrow> s
              | Some c' \<Rightarrow> if hasFill s
                  then (removeEventListener c' s)\<lparr>progressEndHandler := None\<rparr> else s);
        s2 = (case timer s1 of
                None \<Rightarrow> s1
              | Some t \<Rightarrow> (clearTimeout t s1)
                  \<lparr>cleanupTimeouts := removeAll t (cleanupTimeouts s1), timer := None\<rparr>)
      in case animationFrame s2 of
           None \<Rightarrow> s2
         | Some r \<Rightarrow> (cancelAnimationFrame r s2)
             \<lparr>cleanupRafs := removeAll r (cleanupRafs s2), animationFrame := None\<rparr>)"

definition advance :: "nat \<Rightarrow> env \<Rightarrow> carousel \<Rightarrow> carousel" where
  "advance c e s =
     (if c \<in> set (advancedCycles s) then s
      else if viewportPaused s \<or> destroyed s \<or> paused s then s
      else let
        s0 = s\<lparr>advancedCycles := c # advancedCycles s\<rparr>;
        s3 = releaseCycle s0;
        s4 = s3\<lparr>pauseElapsed := 0\<rparr>;
        s5 = setActive (index s4 + 1) True s4
      in startAuto e s5)"

text \<open>
  The callbacks \<^verbatim>\<open>startAuto\<close> registers: the \<^verbatim>\<open>transitionend\<close> handler (lines 2120-2127;
  \<open>isWidth\<close> says whether the event is the bar's own width transition), the animation
  frame (lines 2135-2147) and the fallback timeout (lines 2152-2158).
\<close>

definition progressEndHandlerCallback :: "nat \<Rightarrow> bool \<Rightarrow> env \<Rightarrow> carousel \<Rightarrow> carousel" where
  "progressEndHandlerCallback c isWidth e s = (if isWidth then advance c e s else s)"

definition rafCallback :: "env \<Rightarrow> carousel \<Rightarrow> carousel" where
  "rafCallback e s =
     (let raf = animationFrame s;
          s1 = (if hasFill s \<and> \<not> viewportPaused s \<and> \<not> destroyed s \<and> \<not> paused s
                then s\<lparr>fillWidth := Percent 100\<rparr> else s);
          s2 = (case raf of
                  None \<Rightarrow> s1
                | Some r \<Rightarrow> s1\<lparr>cleanupRafs := removeAll r (cleanupRafs s1)\<rparr>)
      in s2\<lparr>animationFrame := None\<rparr>)"

definition fallbackCallback :: "nat \<Rightarrow> env \<Rightarrow> carousel \<Rightarrow> carousel" where
  "fallbackCallback c e s =
     (let s1 = (if \<not> viewportPaused s \<and> \<not> destroyed s \<and> \<not> paused s
                   \<and> c \<notin> set (advancedCycles s)
                then advance c e s else s);
          s2 = (case timer s1 of
                  None \<Rightarrow> s1
                | Some t \<Rightarrow> s1\<lparr>cleanupTimeouts := removeAll t (cleanupTimeouts s1)\<rparr>)
      in s2\<lparr>timer := None\<rparr>)"

subsection \<open>Pause and resume\<close>

text \<open>\<^verbatim>\<open>pauseAutoplay\<close> and \<^verbatim>\<open>resumeAutoplay\<close> (lines 2170-2205).\<close>

definition pauseAutoplay :: "env \<Rightarrow> carousel \<Rightarrow> carousel" where
  "pauseAutoplay e s =
     (if \<not> validateState s \<or> paused s then s
      else let
        s1 = s\<lparr>paused := True\<rparr>;
        elapsed = (if startTs s1 \<noteq> 0 then now e - startTs s1 else 0);
        s2 = s1\<lparr>pauseElapsed := max 0 (min intervalMs elapsed)\<rparr>;
        s3 = stopAuto e s2
      in if hasFill s3
         then s3\<lparr>fillTransition := NoTransition,
                 fillWidth := Percent (max 0 (min 1 (pauseElapsed s3 / intervalMs)) * 100)\<rparr>
         else s3)"

definition resumeAutoplay :: "env \<Rightarrow> carousel \<Rightarrow> carousel" where
  "resumeAutoplay e s =
     (if \<not> validateState s \<or> \<not> paused s \<or> viewportPaused s then s
      else startAuto e (s\<lparr>paused := False\<rparr>))"

text \<open>\<^verbatim>\<open>pauseForViewport\<close> and \<^verbatim>\<open>resumeFromViewportPause\<close> (lines 2207-2259).\<close>

definition pauseForViewport :: "env \<Rightarrow> carousel \<Rightarrow> carousel" where
  "pauseForViewport e s =
     (if \<not> validateState s \<or> viewportPaused s then s
      else let
        s1 = s\<lparr>viewportPaused := True, isInViewport := False\<rparr>;
        s2 = (if timer s1 \<noteq> None \<and> \<not> paused s1
              then s1\<lparr>pauseElapsed := max 0 (min intervalMs (now e - startTs s1))\<rparr>
              else s1);
        s3 = stopAuto e s2
      in if hasFill s3
         then s3\<lparr>fillTransition := NoTransition,
                 fillWidth := Percent (max 0 (min 1 (pauseElapsed s3 / intervalMs)) * 100)\<rparr>
         else s3)"

definition resumeFromViewportPause :: "env \<Rightarrow> carousel \<Rightarrow> carousel" where
  "resumeFromViewportPause e s =
     (if \<not> validateState s then s
      else let s1 = s\<lparr>viewportPaused := False, isInViewport := True\<rparr> in
        if pausedByFullscreen s1 then s1
        else if shouldAutoStart s1
        then startAuto e (completeProgressReset e (s1\<lparr>shouldAutoStart := False, paused := False\<rparr>))
        else if \<not> paused s1 then startAuto e s1
        else s1)"

text \<open>
  \<^verbatim>\<open>initialize\<close> (lines 2261-2291) and the callback of its 100 ms timeout, which knows its
  own handle \<open>h\<close>.
\<close>

definition initialize :: "env \<Rightarrow> carousel \<Rightarrow> carousel" where
  "initialize e s =
     (if \<not> validateState s \<or> initialized s then s
      else let s1 = s\<lparr>initialized := True, isInViewport := True\<rparr> in
        if nslides s1 > 0
        then let s2 = setActive 0 True (completeProgressReset e s1) in
          if pausedByFullscreen s2 then s2\<lparr>shouldAutoStart := True\<rparr>
          else let h = Suc (nextId s2) in
            s2\<lparr>timeouts := timeouts s2 @ [(h, InitTimer, 100)],
                cleanupTimeouts := h # cleanupTimeouts s2,
                nextId := h\<rparr>
        else s1)"

definition initTimerCallback :: "nat \<Rightarrow> env \<Rightarrow> carousel \<Rightarrow> carousel" where
  "initTimerCallback h e s =
     (let s1 = (if \<not> viewportPaused s \<and> \<not> destroyed s \<and> \<not> paused s
                then startAuto e s else s)
      in s1\<lparr>cleanupTimeouts := removeAll h (cleanupTimeouts s1)\<rparr>)"

text \<open>\<^verbatim>\<open>onFullscreenOpen\<close> and \<^verbatim>\<open>onFullscreenClose\<close> (lines 2294-2335).\<close>

definition onFullscreenOpen :: "env \<Rightarrow> carousel \<Rightarrow> carousel" where
  "onFullscreenOpen e s =
     (if \<not> validateState s then s
      else let s1 = s\<lparr>pausedByFullscreen := True\<rparr> in
        if \<not> initialized s1 then s1\<lparr>paused := True, shouldAutoStart := True\<rparr>
        else pauseAutoplay e s1)"

definition onFullscreenClose :: "env \<Rightarrow> carousel \<Rightarrow> carousel" where
  "onFullscreenClose e s =
     (if \<not> validateState s then s
      else let s1 = s\<lparr>pausedByFullscreen := False\<rparr> in
        if initialized s1 \<and> isInViewport s1
        then startAuto e (completeProgressReset e (s1\<lparr>paused := False, shouldAutoStart := False\<rparr>))
        else s1\<lparr>paused := False, shouldAutoStart := True\<rparr>)"

text \<open>\<^verbatim>\<open>resetProgress\<close> (lines 2337-2349).\<close>

definition resetProgress :: "carousel \<Rightarrow> carousel" where
  "resetProgress s =
     (if \<not> validateState s then s
      else if hasFill s then s\<lparr>fillTransition := NoTransition, fillWidth := Percent 0\<rparr>
      else s)"

subsection \<open>User navigation (lines 2352-2451)\<close>

text \<open>What every handler does after the slide change.\<close>

definition restartOrReset :: "env \<Rightarrow> carousel \<Rightarrow> carousel" where
  "restartOrReset e s =
     (if \<not> paused s \<and> \<not> viewportPaused s then startAuto e s
      else if paused s then resetProgress s
      else s)"

definition nextBtnClick :: "env \<Rightarrow> carousel \<Rightarrow> carousel" where
  "nextBtnClick e s = (if \<not> validateState s then s else restartOrReset e (nextSlide e s))"

definition prevBtnClick :: "env \<Rightarrow> carousel \<Rightarrow> carousel" where
  "prevBtnClick e s = (if \<not> validateState s then s else restartOrReset e (prevSlide e s))"

definition dotClick :: "nat \<Rightarrow> env \<Rightarrow> carousel \<Rightarrow> carousel" where
  "dotClick idx e s =
     (if \<not> validateState s then s
      else restartOrReset e (setActive (int idx) True (completeProgressReset e s)))"

text \<open>
  The click on the image: \<open>rightHalf\<close> is the test \<^verbatim>\<open>e.clientX >= mid\<close>. The keyboard
  handler does what the two buttons do.
\<close>

definition viewportClick :: "bool \<Rightarrow> env \<Rightarrow> carousel \<Rightarrow> carousel" where
  "viewportClick rightHalf e s =
     (if \<not> validateState s then s
      else restartOrReset e (if rightHalf then nextSlide e s else prevSlide e s))"

subsection \<open>Teardown (lines 2514-2562)\<close>

definition cleanup :: "env \<Rightarrow> carousel \<Rightarrow> carousel" where
  "cleanup e s =
     (if destroyed s then s
      else let
        s1 = s\<lparr>destroyed := True\<rparr>;
        s2 = stopAuto e s1;
        s3 = (if cleanupFns s2 then s2\<lparr>resizeObserving := False\<rparr> else s2)\<lparr>cleanupFns := False\<rparr>;
        s4 = s3\<lparr>rafs := filter (\<lambda>r. r \<notin> set (cleanupRafs s3)) (rafs s3), cleanupRafs := []\<rparr>;
        s5 = s4\<lparr>timeouts := filter (\<lambda>x. fst x \<notin> set (cleanupTimeouts s4)) (timeouts s4),
                 cleanupTimeouts := []\<rparr>
      in s5\<lparr>initialized := False, paused := False, viewportPaused := False,
              pauseElapsed := 0, index := 0\<rparr>)"

subsection \<open>The browser delivering what was scheduled\<close>

definition fireTimeout :: "nat \<Rightarrow> env \<Rightarrow> carousel \<Rightarrow> carousel" where
  "fireTimeout h e s =
     (case map_of (timeouts s) h of
        None \<Rightarrow> s
      | Some (Fallback c, d) \<Rightarrow> fallbackCallback c e (clearTimeout h s)
      | Some (InitTimer, d) \<Rightarrow> initTimerCallback h e (clearTimeout h s))"

definition fireRaf :: "nat \<Rightarrow> env \<Rightarrow> carousel \<Rightarrow> carousel" where
  "fireRaf r e s =
     (if r \<in> set (rafs s) then rafCallback e (cancelAnimationFrame r s) else s)"

text \<open>A \<^verbatim>\<open>transitionend\<close> event reaches the listener of cycle \<open>c\<close> if it is still attached;
  the listener was added with \<^verbatim>\<open>once: true\<close>, so it is removed before it runs.\<close>

definition fireTransitionEnd :: "nat \<Rightarrow> bool \<Rightarrow> env \<Rightarrow> carousel \<Rightarrow> carousel" where
  "fireTransitionEnd c isWidth e s =
     (if c \<in> set (listeners s)
      then progressEndHandlerCallback c isWidth e (removeEventListener c s) else s)"

subsection \<open>Everything that can happen to one instance\<close>

datatype event =
    Initialize | PauseForViewport | ResumeFromViewportPause
  | PauseAutoplay | ResumeAutoplay
  | OnFullscreenOpen | OnFullscreenClose
  | NextBtnClick | PrevBtnClick | DotClick nat | KeyArrowRight | KeyArrowLeft
  | ViewportClick bool
  | Cleanup
  | FireTimeout nat | FireRaf nat | FireTransitionEnd nat bool

fun step :: "env \<Rightarrow> event \<Rightarrow> carousel \<Rightarrow> carousel" where
  "step e Initialize s = initialize e s"
| "step e PauseForViewport s = pauseForViewport e s"
| "step e ResumeFromViewportPause s = resumeFromViewportPause e s"
| "step e PauseAutoplay s = pauseAutoplay e s"
| "step e ResumeAutoplay s = resumeAutoplay e s"
| "step e OnFullscreenOpen s = onFullscreenOpen e s"
| "step e OnFullscreenClose s = onFullscreenClose e s"
| "step e NextBtnClick s = nextBtnClick e s"
| "step e PrevBtnClick s = prevBtnClick e s"
| "step e (DotClick idx) s = dotClick idx e s"
| "step e KeyArrowRight s = nextBtnClick e s"
| "step e KeyArrowLeft s = prevBtnClick e s"
| "step e (ViewportClick rightHalf) s = viewportClick rightHalf e s"
| "step e Cleanup s = cleanup e s"
| "step e (FireTimeout h) s = fireTimeout h e s"
| "step e (FireRaf r) s = fireRaf r e s"
| "step e (FireTransitionEnd c isWidth) s = fireTransitionEnd c isWidth e s"

fun run :: "(env \<times> event) list \<Rightarrow> carousel \<Rightarrow> carousel" where
  "run [] s = s"
| "run (x # xs) s = run xs (step (fst x) (snd x) s)"

text \<open>The instance counts as playing when it holds the handle of an armed fallback timeout.\<close>

definition timerRunning :: "carousel \<Rightarrow> bool" where
  "timerRunning s = (timer s \<noteq> None)"

definition anyPauseFlag :: "carousel \<Rightarrow> bool" where
  "anyPauseFlag s = (viewportPaused s \<or> paused s \<or> pausedByFullscreen s)"

text \<open>Nothing is scheduled and nothing listens: no callback of the instance can run.\<close>

definition nothingScheduled :: "carousel \<Rightarrow> bool" where
  "nothingScheduled s =
     (timer s = None \<and> animationFrame s = None \<and> progressEndHandler s = None
      \<and> timeouts s = [] \<and> rafs s = [] \<and> listeners s = [])"

definition wellClamped :: "carousel \<Rightarrow> bool" where
  "wellClamped s =
     (0 \<le> pauseElapsed s \<and> pauseElapsed s \<le> intervalMs
      \<and> (case fillWidth s of Percent p \<Rightarrow> 0 \<le> p \<and> p \<le> 100 | Px w \<Rightarrow> True))"

section \<open>The viewport observer (carouselViewportObserver, lines 1749-1881)\<close>

text \<open>
  Containers are numbered. \<open>observer\<close> says whether the module's \<^verbatim>\<open>observer\<close> variable
  holds an IntersectionObserver; \<open>observedCarousels\<close> maps a container to the
  \<^verbatim>\<open>isInitialized.value\<close> of its entry, the instance itself being the one the page keeps
  for that container. Constructing the observer throws where the environment has no
  IntersectionObserver.
\<close>

datatype js_error = ReferenceError | TypeError

record observerModule =
  observer :: bool
  observedCarousels :: "nat \<rightharpoonup> bool"
  isDestroying :: bool

definition newIntersectionObserver :: "bool \<Rightarrow> js_error + unit" where
  "newIntersectionObserver supported = (if supported then Inr () else Inl ReferenceError)"

definition initObserver :: "bool \<Rightarrow> observerModule \<Rightarrow> bool \<times> observerModule" where
  "initObserver supported m =
     (if observer m \<or> isDestroying m then (observer m, m)
      else case newIntersectionObserver supported of
             Inr u \<Rightarrow> (True, m\<lparr>observer := True\<rparr>)
           | Inl err \<Rightarrow> (False, m\<lparr>observer := False\<rparr>))"

definition observe :: "bool \<Rightarrow> nat \<Rightarrow> observerModule \<Rightarrow> observerModule" where
  "observe supported k m =
     (if isDestroying m then m
      else case initObserver supported m of
             (obs, m1) \<Rightarrow>
               if \<not> obs then m1
               else m1\<lparr>observedCarousels := (observedCarousels m1)(k \<mapsto> False)\<rparr>)"

section \<open>The fullscreen modal (initializeFullscreenModal, lines 3173-3355)\<close>

record image =
  src :: string
  alt :: string

record modal =
  currentImages :: "image list"
  currentIndex :: int
  originalCarousel :: "nat option"
  active :: bool
  imageSrc :: string
  imageAlt :: string
  counter :: "int \<times> nat"
  navShown :: bool
  pendingClose :: nat

text \<open>
  \<^verbatim>\<open>showCurrentImage\<close> (lines 3242-3254): reading \<^verbatim>\<open>.src\<close> of an index outside the list
  is a TypeError.
\<close>

definition showCurrentImage :: "modal \<Rightarrow> js_error + modal" where
  "showCurrentImage m =
     (if length (currentImages m) > 0
      then if 0 \<le> currentIndex m \<and> currentIndex m < int (length (currentImages m))
        then let img = currentImages m ! nat (currentIndex m) in
          Inr (m\<lparr>imageSrc := src img, imageAlt := alt img,
                  counter := (currentIndex m + 1, length (currentImages m)),
                  navShown := (length (currentImages m) > 1)\<rparr>)
        else Inl TypeError
      else Inr m)"

section \<open>The page: observer, instances and modal together\<close>

record page =
  ioSupported :: bool
  vo :: observerModule
  carousels :: "nat \<rightharpoonup> carousel"
  fs :: modal

definition newPage :: "bool \<Rightarrow> page" where
  "newPage supported =
     \<lparr> ioSupported = supported,
       vo = \<lparr> observer = False, observedCarousels = Map.empty, isDestroying = False \<rparr>,
       carousels = Map.empty,
       fs = \<lparr> currentImages = [], currentIndex = 0, originalCarousel = None, active = False,
              imageSrc = [], imageAlt = [], counter = (1, 1), navShown = False,
              pendingClose = 0 \<rparr> \<rparr>"

text \<open>
  \<^verbatim>\<open>initializeSingleCarousel\<close> for container \<open>k\<close> with \<open>n\<close> slides (lines 1894-1913 and
  2565-2569): no instance without slides; otherwise the instance is registered with the
  observer and exposed on the container.
\<close>

definition initializeSingleCarousel :: "nat \<Rightarrow> nat \<Rightarrow> bool \<Rightarrow> page \<Rightarrow> page" where
  "initializeSingleCarousel k n hf p =
     (if n = 0 then p
      else p\<lparr>vo := observe (ioSupported p) k (vo p),
             carousels := (carousels p)(k \<mapsto> newCarousel n hf)\<rparr>)"

text \<open>
  The observer's callback for one entry (lines 1759-1815). Without an observer the browser
  has nothing to call.
\<close>

definition onIntersection :: "nat \<Rightarrow> bool \<Rightarrow> env \<Rightarrow> page \<Rightarrow> page" where
  "onIntersection k isIntersecting e p =
     (if \<not> observer (vo p) \<or> isDestroying (vo p) then p
      else case observedCarousels (vo p) k of
        None \<Rightarrow> p
      | Some isInit \<Rightarrow>
          (case carousels p k of
             None \<Rightarrow> p
           | Some c \<Rightarrow>
               if isIntersecting
               then if \<not> isInit
                 then p\<lparr>carousels := (carousels p)(k \<mapsto> initialize e c),
                        vo := (vo p)\<lparr>observedCarousels := (observedCarousels (vo p))(k \<mapsto> True)\<rparr>\<rparr>
                 else p\<lparr>carousels := (carousels p)(k \<mapsto> resumeFromViewportPause e c)\<rparr>
               else if isInit
                 then p\<lparr>carousels := (carousels p)(k \<mapsto> pauseForViewport e c)\<rparr>
                 else p))"

text \<open>
  \<^verbatim>\<open>openModal\<close>, \<^verbatim>\<open>closeModal\<close> with its 300 ms timeout, \<^verbatim>\<open>nextImage\<close> and
  \<^verbatim>\<open>prevImage\<close> (lines 3208-3270). A handler that throws leaves the state as it was at
  the throw: the result is the error, if any, and the page.
\<close>

definition openModal :: "image list \<Rightarrow> int \<Rightarrow> nat option \<Rightarrow> env \<Rightarrow> page \<Rightarrow> js_error option \<times> page" where
  "openModal images startIndex owner e p =
     (let m1 = (fs p)\<lparr>currentImages := images, currentIndex := startIndex,
                       originalCarousel := owner\<rparr>;
          cs = (case owner of
                  None \<Rightarrow> carousels p
                | Some k \<Rightarrow> (case carousels p k of
                                None \<Rightarrow> carousels p
                              | Some c \<Rightarrow> (carousels p)(k \<mapsto> onFullscreenOpen e c)))
      in case showCurrentImage m1 of
           Inl err \<Rightarrow> (Some err, p\<lparr>fs := m1, carousels := cs\<rparr>)
         | Inr m2 \<Rightarrow> (None, p\<lparr>fs := m2\<lparr>active := True\<rparr>, carousels := cs\<rparr>))"

definition closeModal :: "page \<Rightarrow> page" where
  "closeModal p = p\<lparr>fs := (fs p)\<lparr>active := False, pendingClose := Suc (pendingClose (fs p))\<rparr>\<rparr>"

definition closeModalTimeout :: "env \<Rightarrow> page \<Rightarrow> page" where
  "closeModalTimeout e p =
     (if pendingClose (fs p) = 0 then p
      else let p1 = p\<lparr>fs := (fs p)\<lparr>pendingClose := pendingClose (fs p) - 1\<rparr>\<rparr> in
        case originalCarousel (fs p1) of
          None \<Rightarrow> p1
        | Some k \<Rightarrow> (case carousels p1 k of
                       None \<Rightarrow> p1
                     | Some c \<Rightarrow> p1\<lparr>carousels := (carousels p1)(k \<mapsto> onFullscreenClose e c)\<rparr>))"

definition nextImage :: "page \<Rightarrow> js_error option \<times> page" where
  "nextImage p =
     (if length (currentImages (fs p)) > 1
      then let m1 = (fs p)\<lparr>currentIndex :=
                        (currentIndex (fs p) + 1) smod int (length (currentImages (fs p)))\<rparr>
        in case showCurrentImage m1 of
             Inl err \<Rightarrow> (Some err, p\<lparr>fs := m1\<rparr>)
           | Inr m2 \<Rightarrow> (None, p\<lparr>fs := m2\<rparr>)
      else (None, p))"

definition prevImage :: "page \<Rightarrow> js_error option \<times> page" where
  "prevImage p =
     (if length (currentImages (fs p)) > 1
      then let m1 = (fs p)\<lparr>currentIndex :=
                        (currentIndex (fs p) - 1 + int (length (currentImages (fs p))))
                          smod int (length (currentImages (fs p)))\<rparr>
        in case showCurrentImage m1 of
             Inl err \<Rightarrow> (Some err, p\<lparr>fs := m1\<rparr>)
           | Inr m2 \<Rightarrow> (None, p\<lparr>fs := m2\<rparr>)
      else (None, p))"

text \<open>\<^verbatim>\<open>getCurrentIndex\<close> of the instance exposed on container \<open>k\<close> (line 2496).\<close>

definition getCurrentIndex :: "nat \<Rightarrow> page \<Rightarrow> int option" where
  "getCurrentIndex k p = map_option index (carousels p k)"

section \<open>The first variant's timer (script.js lines 412-462)\<close>

text \<open>
  The earlier \<^verbatim>\<open>initializeSingleCarousel\<close> of the same file advances from a plain timeout.
  Only what its \<^verbatim>\<open>stopAuto\<close> and \<^verbatim>\<open>startAuto\<close> touch is kept; \<open>trackWidth\<close> is the
  \<^verbatim>\<open>clientWidth\<close> of the bar's parent.
\<close>

record carousel1 =
  hasFill1 :: bool
  timer1 :: "nat option"
  startTs1 :: real
  pauseElapsed1 :: real
  viewportPaused1 :: bool
  fillWidth1 :: width
  fillTransition1 :: transition
  timeouts1 :: "(nat \<times> real) list"
  rafs1 :: "nat list"
  nextId1 :: nat

definition stopAuto1 :: "env \<Rightarrow> real \<Rightarrow> carousel1 \<Rightarrow> carousel1" where
  "stopAuto1 e trackWidth s =
     (let s1 = (case timer1 s of
                  None \<Rightarrow> s
                | Some t \<Rightarrow> s\<lparr>timeouts1 := filter (\<lambda>x. fst x \<noteq> t) (timeouts1 s),
                               timer1 := None\<rparr>)
      in if hasFill1 s1
         then if trackWidth > 0
           then s1\<lparr>fillTransition1 := NoTransition,
                   fillWidth1 := Percent (max 0 (min 100 (computedWidth e / trackWidth * 100)))\<rparr>
           else s1\<lparr>fillTransition1 := NoTransition, fillWidth1 := Px (computedWidth e)\<rparr>
         else s1)"

definition startAuto1 :: "env \<Rightarrow> real \<Rightarrow> carousel1 \<Rightarrow> carousel1" where
  "startAuto1 e trackWidth s =
     (if viewportPaused1 s then s
      else let
        s1 = stopAuto1 e trackWidth s;
        remaining = max 16 (intervalMs - pauseElapsed1 s1);
        s2 = (if hasFill1 s1
              then let r = Suc (nextId1 s1) in
                s1\<lparr>fillWidth1 := Percent (max 0 (min 1 (pauseElapsed1 s1 / intervalMs)) * 100),
                    fillTransition1 := Linear remaining,
                    rafs1 := rafs1 s1 @ [r],
                    nextId1 := r\<rparr>
              else s1);
        t = Suc (nextId1 s2)
      in s2\<lparr>startTs1 := now e - pauseElapsed1 s2,
              timer1 := Some t,
              timeouts1 := timeouts1 s2 @ [(t, remaining)],
              nextId1 := t\<rparr>)"

section \<open>Predicates used in the statements\<close>

subsection \<open>Kinds of events\<close>

text \<open>The events that are calls of the instance's operations or of its DOM handlers, as
  opposed to the browser running a callback the instance scheduled.\<close>

definition publicEvent :: "event \<Rightarrow> bool" where
  "publicEvent ev = (case ev of FireTimeout h \<Rightarrow> False | FireRaf r \<Rightarrow> False
                      | FireTransitionEnd c w \<Rightarrow> False | _ \<Rightarrow> True)"

text \<open>The pause and resume requests of the three sources, and those of the two sources
  that have callers in this variant (the observer and the modal).\<close>

definition pauseResumeRequest :: "event \<Rightarrow> bool" where
  "pauseResumeRequest ev =
     (ev = PauseForViewport \<or> ev = ResumeFromViewportPause \<or> ev = PauseAutoplay
      \<or> ev = ResumeAutoplay \<or> ev = OnFullscreenOpen \<or> ev = OnFullscreenClose)"

definition viewportOrFullscreenRequest :: "event \<Rightarrow> bool" where
  "viewportOrFullscreenRequest ev =
     (ev = PauseForViewport \<or> ev = ResumeFromViewportPause
      \<or> ev = OnFullscreenOpen \<or> ev = OnFullscreenClose)"

text \<open>The events other than closing the overlay and the manual resume.\<close>

definition overlayStaysOpen :: "event \<Rightarrow> bool" where
  "overlayStaysOpen ev = (ev \<noteq> OnFullscreenClose \<and> ev \<noteq> ResumeAutoplay)"

text \<open>The three operations that only the viewport observer calls.\<close>

definition observerCall :: "event \<Rightarrow> bool" where
  "observerCall ev =
     (ev = Initialize \<or> ev = PauseForViewport \<or> ev = ResumeFromViewportPause)"

subsection \<open>Invariants\<close>

text \<open>The slide index is a valid position.\<close>

definition inRange :: "carousel \<Rightarrow> bool" where
  "inRange s = (1 \<le> nslides s \<and> 0 \<le> index s \<and> index s < int (nslides s))"

text \<open>
  Handles and closures are numbered from the counter \<open>nextId\<close>: whatever is scheduled,
  listening or flagged as advanced was allocated before.
\<close>

definition handlesFresh :: "carousel \<Rightarrow> bool" where
  "handlesFresh s =
     ((\<forall>x \<in> set (timeouts s). fst x \<le> nextId s)
      \<and> (\<forall>h c d. (h, Fallback c, d) \<in> set (timeouts s) \<longrightarrow> c \<le> nextId s)
      \<and> (\<forall>c \<in> set (advancedCycles s). c \<le> nextId s)
      \<and> (\<forall>c \<in> set (listeners s). c \<le> nextId s)
      \<and> (\<forall>t. timer s = Some t \<longrightarrow> t \<le> nextId s)
      \<and> (\<forall>c. progressEndHandler s = Some c \<longrightarrow> c \<le> nextId s))"

text \<open>What holds of an initialized instance with a progress bar under the requests of all
  three sources, and what holds in addition under those of viewport and fullscreen alone.\<close>

definition composed :: "carousel \<Rightarrow> bool" where
  "composed s =
     (initialized s \<and> \<not> destroyed s \<and> hasFill s
      \<and> (isInViewport s = (\<not> viewportPaused s))
      \<and> (\<not> anyPauseFlag s \<longrightarrow> timerRunning s)
      \<and> (timerRunning s \<longrightarrow> \<not> viewportPaused s \<and> \<not> paused s))"

definition composedVF :: "carousel \<Rightarrow> bool" where
  "composedVF s = (composed s \<and> (paused s = pausedByFullscreen s))"

text \<open>The state of an instance that the open overlay holds back.\<close>

definition heldByOverlay :: "carousel \<Rightarrow> bool" where
  "heldByOverlay s =
     (nothingScheduled s \<and> (destroyed s \<or> (paused s \<and> pausedByFullscreen s)))"

subsection \<open>The page seen as a whole\<close>

text \<open>An event of the instance on container \<open>k\<close>, seen from the page.\<close>

definition carouselEvent :: "nat \<Rightarrow> env \<Rightarrow> event \<Rightarrow> page \<Rightarrow> page" where
  "carouselEvent k e ev p =
     (case carousels p k of
        None \<Rightarrow> p
      | Some c \<Rightarrow> p\<lparr>carousels := (carousels p)(k \<mapsto> step e ev c)\<rparr>)"

text \<open>A run of observer entries \<open>(container, isIntersecting, environment)\<close>.\<close>

fun runEntries :: "(nat \<times> bool \<times> env) list \<Rightarrow> page \<Rightarrow> page" where
  "runEntries [] p = p"
| "runEntries (x # xs) p = runEntries xs (onIntersection (fst x) (fst (snd x)) (snd (snd x)) p)"

text \<open>
  What can happen on the page: the observer delivers an entry for a container, or
  something happens to the instance of a container. \<open>withoutObserverCalls\<close> are the
  page events in which nobody but the observer calls the observer's three operations.
\<close>

datatype pageEvent = Entry nat bool | Instance nat event

fun pageStep :: "env \<Rightarrow> pageEvent \<Rightarrow> page \<Rightarrow> page" where
  "pageStep e (Entry k isIntersecting) p = onIntersection k isIntersecting e p"
| "pageStep e (Instance k ev) p = carouselEvent k e ev p"

fun runPage :: "(env \<times> pageEvent) list \<Rightarrow> page \<Rightarrow> page" where
  "runPage [] p = p"
| "runPage (x # xs) p = runPage xs (pageStep (fst x) (snd x) p)"

fun withoutObserverCalls :: "pageEvent \<Rightarrow> bool" where
  "withoutObserverCalls (Entry k isIntersecting) = True"
| "withoutObserverCalls (Instance k ev) = (\<not> observerCall ev)"

text \<open>
  The page has no observer, and the instance of container \<open>k\<close> is neither initialized nor
  paused for the viewport.
\<close>

definition unobserved :: "nat \<Rightarrow> page \<Rightarrow> bool" where
  "unobserved k p =
     (\<not> observer (vo p)
      \<and> map_option initialized (carousels p k) = Some False
      \<and> map_option viewportPaused (carousels p k) = Some False)"

subsection \<open>Concrete runs\<close>

text \<open>
  The clock at \<open>t\<close> ms with some computed width; an instance of four slides 100 ms after
  its first viewport entry, when its first cycle has just started; a run in which the
  fallback timeout of the first cycle fires, the user clicks next and the page is torn down;
  an instance of the first variant paused at the end of its interval; a page with one
  gallery whose overlay shows the last of three images.
\<close>

definition envAt :: "real \<Rightarrow> env" where
  "envAt t = \<lparr> now = t, computedWidth = 10 \<rparr>"

definition playingAt100 :: carousel where
  "playingAt100 = run [(envAt 0, Initialize), (envAt 100, FireTimeout 1)] (newCarousel 4 True)"

definition staleFallbackTrace :: "(env \<times> event) list" where
  "staleFallbackTrace =
     [(envAt 0, Initialize), (envAt 100, FireTimeout 1), (envAt 5300, FireTimeout 4),
      (envAt 6000, NextBtnClick), (envAt 7000, Cleanup)]"

definition legacyPaused :: carousel1 where
  "legacyPaused = \<lparr> hasFill1 = True, timer1 = None, startTs1 = 100, pauseElapsed1 = 5000,
     viewportPaused1 = False, fillWidth1 = Percent 100, fillTransition1 = NoTransition,
     timeouts1 = [], rafs1 = [], nextId1 = 0 \<rparr>"

definition threeImages :: "image list" where
  "threeImages = [\<lparr>src = ''a.png'', alt = ''a''\<rparr>, \<lparr>src = ''b.png'', alt = ''b''\<rparr>,
                  \<lparr>src = ''c.png'', alt = []\<rparr>]"

definition lightboxPage :: page where
  "lightboxPage =
     snd (openModal threeImages 2 (Some 0) (envAt 50)
            (initializeSingleCarousel 0 4 True (newPage True)))"

text \<open>
  A run in which the fallback timeout of the first cycle fires at 5300 ms (its
  \<^verbatim>\<open>transitionend\<close> never came) and the user clicks next 100 ms later, and the state it
  leads to.
\<close>

definition supersededTrace :: "(env \<times> event) list" where
  "supersededTrace =
     [(envAt 0, Initialize), (envAt 100, FireTimeout 1), (envAt 5300, FireTimeout 4),
      (envAt 5400, NextBtnClick)]"

definition afterSupersededCycle :: carousel where
  "afterSupersededCycle = run supersededTrace (newCarousel 4 True)"

section \<open>How each operation changes the state\<close>

lemmas prim_defs = validateState_def clearTimeout_def cancelAnimationFrame_def
  removeEventListener_def

subsection \<open>What stopAuto changes\<close>

lemma stopAuto_frame [simp]:
  "nslides (stopAuto e s) = nslides s"
  "hasFill (stopAuto e s) = hasFill s"
  "index (stopAuto e s) = index s"
  "startTs (stopAuto e s) = startTs s"
  "pauseElapsed (stopAuto e s) = pauseElapsed s"
  "paused (stopAuto e s) = paused s"
  "viewportPaused (stopAuto e s) = viewportPaused s"
  "initialized (stopAuto e s) = initialized s"
  "destroyed (stopAuto e s) = destroyed s"
  "pausedByFullscreen (stopAuto e s) = pausedByFullscreen s"
  "shouldAutoStart (stopAuto e s) = shouldAutoStart s"
  "isInViewport (stopAuto e s) = isInViewport s"
  "advancedCycles (stopAuto e s) = advancedCycles s"
  "nextId (stopAuto e s) = nextId s"
  "cleanupFns (stopAuto e s) = cleanupFns s"
  "resizeObserving (stopAuto e s) = resizeObserving s"
  by (simp_all add: stopAuto_def prim_defs Let_def split: option.splits)

lemma stopAuto_destroyed [simp]: "destroyed s \<Longrightarrow> stopAuto e s = s"
  by (simp add: stopAuto_def prim_defs)

lemma stopAuto_handles [simp]:
  "\<not> destroyed s \<Longrightarrow> timer (stopAuto e s) = None"
  "\<not> destroyed s \<Longrightarrow> animationFrame (stopAuto e s) = None"
  "\<not> destroyed s \<Longrightarrow> hasFill s \<Longrightarrow> progressEndHandler (stopAuto e s) = None"
  by (simp_all add: stopAuto_def prim_defs Let_def split: option.splits)

lemma stopAuto_fill:
  "fillWidth (stopAuto e s) =
     (if \<not> destroyed s \<and> hasFill s then Px (computedWidth e) else fillWidth s)"
  "fillTransition (stopAuto e s) =
     (if \<not> destroyed s \<and> hasFill s then NoTransition else fillTransition s)"
  by (simp_all add: stopAuto_def prim_defs Let_def split: option.splits)

lemma stopAuto_scheduled:
  "set (timeouts (stopAuto e s)) \<subseteq> set (timeouts s)"
  "set (rafs (stopAuto e s)) \<subseteq> set (rafs s)"
  "set (listeners (stopAuto e s)) \<subseteq> set (listeners s)"
  "set (cleanupTimeouts (stopAuto e s)) \<subseteq> set (cleanupTimeouts s)"
  "set (cleanupRafs (stopAuto e s)) \<subseteq> set (cleanupRafs s)"
  by (auto simp add: stopAuto_def prim_defs Let_def split: option.splits)

subsection \<open>What releaseCycle changes\<close>

lemma releaseCycle_frame [simp]:
  "nslides (releaseCycle s) = nslides s"
  "hasFill (releaseCycle s) = hasFill s"
  "index (releaseCycle s) = index s"
  "startTs (releaseCycle s) = startTs s"
  "pauseElapsed (releaseCycle s) = pauseElapsed s"
  "paused (releaseCycle s) = paused s"
  "viewportPaused (releaseCycle s) = viewportPaused s"
  "initialized (releaseCycle s) = initialized s"
  "destroyed (releaseCycle s) = destroyed s"
  "pausedByFullscreen (releaseCycle s) = pausedByFullscreen s"
  "shouldAutoStart (releaseCycle s) = shouldAutoStart s"
  "isInViewport (releaseCycle s) = isInViewport s"
  "advancedCycles (releaseCycle s) = advancedCycles s"
  "nextId (releaseCycle s) = nextId s"
  "cleanupFns (releaseCycle s) = cleanupFns s"
  "resizeObserving (releaseCycle s) = resizeObserving s"
  "fillWidth (releaseCycle s) = fillWidth s"
  "fillTransition (releaseCycle s) = fillTransition s"
  by (simp_all add: releaseCycle_def prim_defs Let_def split: option.splits)

lemma releaseCycle_handles [simp]:
  "timer (releaseCycle s) = None"
  "animationFrame (releaseCycle s) = None"
  "hasFill s \<Longrightarrow> progressEndHandler (releaseCycle s) = None"
  by (simp_all add: releaseCycle_def prim_defs Let_def split: option.splits)

lemma releaseCycle_lists:
  "timeouts (releaseCycle s) =
     (case timer s of None \<Rightarrow> timeouts s
      | Some t \<Rightarrow> filter (\<lambda>x. fst x \<noteq> t) (timeouts s))"
  "listeners (releaseCycle s) =
     (case progressEndHandler s of None \<Rightarrow> listeners s
      | Some c \<Rightarrow> if hasFill s then removeAll c (listeners s) else listeners s)"
  by (simp_all add: releaseCycle_def prim_defs Let_def split: option.splits)

lemma stopAuto_lists:
  "\<not> destroyed s \<Longrightarrow> timeouts (stopAuto e s) =
     (case timer s of None \<Rightarrow> timeouts s
      | Some t \<Rightarrow> filter (\<lambda>x. fst x \<noteq> t) (timeouts s))"
  "\<not> destroyed s \<Longrightarrow> listeners (stopAuto e s) =
     (case progressEndHandler s of None \<Rightarrow> listeners s
      | Some c \<Rightarrow> if hasFill s then removeAll c (listeners s) else listeners s)"
  by (simp_all add: stopAuto_def prim_defs Let_def split: option.splits)

lemma releaseCycle_peh:
  "progressEndHandler (releaseCycle s) = (if hasFill s then None else progressEndHandler s)"
  by (simp add: releaseCycle_def prim_defs Let_def split: option.splits)

lemma stopAuto_peh:
  "progressEndHandler (stopAuto e s) =
     (if \<not> destroyed s \<and> hasFill s then None else progressEndHandler s)"
  by (simp add: stopAuto_def prim_defs Let_def split: option.splits)

subsection \<open>What setActive changes\<close>

lemma setActive_frame [simp]:
  "nslides (setActive i r s) = nslides s"
  "hasFill (setActive i r s) = hasFill s"
  "timer (setActive i r s) = timer s"
  "animationFrame (setActive i r s) = animationFrame s"
  "startTs (setActive i r s) = startTs s"
  "pauseElapsed (setActive i r s) = pauseElapsed s"
  "paused (setActive i r s) = paused s"
  "viewportPaused (setActive i r s) = viewportPaused s"
  "initialized (setActive i r s) = initialized s"
  "destroyed (setActive i r s) = destroyed s"
  "pausedByFullscreen (setActive i r s) = pausedByFullscreen s"
  "shouldAutoStart (setActive i r s) = shouldAutoStart s"
  "isInViewport (setActive i r s) = isInViewport s"
  "progressEndHandler (setActive i r s) = progressEndHandler s"
  "cleanupFns (setActive i r s) = cleanupFns s"
  "cleanupTimeouts (setActive i r s) = cleanupTimeouts s"
  "cleanupRafs (setActive i r s) = cleanupRafs s"
  "advancedCycles (setActive i r s) = advancedCycles s"
  "listeners (setActive i r s) = listeners s"
  "timeouts (setActive i r s) = timeouts s"
  "rafs (setActive i r s) = rafs s"
  "resizeObserving (setActive i r s) = resizeObserving s"
  "nextId (setActive i r s) = nextId s"
  by (simp_all add: setActive_def prim_defs Let_def)

lemma setActive_destroyed [simp]: "destroyed s \<Longrightarrow> setActive i r s = s"
  by (simp add: setActive_def prim_defs)

lemma setActive_index:
  "index (setActive i r s) =
     (if destroyed s then index s else (i + int (nslides s)) smod int (nslides s))"
  by (auto simp add: setActive_def prim_defs Let_def)

lemma setActive_fill:
  "fillWidth (setActive i True s) =
     (if \<not> destroyed s \<and> hasFill s then Percent 0 else fillWidth s)"
  by (simp add: setActive_def prim_defs Let_def)

subsection \<open>What completeProgressReset changes\<close>

lemma completeProgressReset_frame [simp]:
  "nslides (completeProgressReset e s) = nslides s"
  "hasFill (completeProgressReset e s) = hasFill s"
  "index (completeProgressReset e s) = index s"
  "paused (completeProgressReset e s) = paused s"
  "viewportPaused (completeProgressReset e s) = viewportPaused s"
  "initialized (completeProgressReset e s) = initialized s"
  "destroyed (completeProgressReset e s) = destroyed s"
  "pausedByFullscreen (completeProgressReset e s) = pausedByFullscreen s"
  "shouldAutoStart (completeProgressReset e s) = shouldAutoStart s"
  "isInViewport (completeProgressReset e s) = isInViewport s"
  "advancedCycles (completeProgressReset e s) = advancedCycles s"
  "nextId (completeProgressReset e s) = nextId s"
  "cleanupFns (completeProgressReset e s) = cleanupFns s"
  "resizeObserving (completeProgressReset e s) = resizeObserving s"
  by (simp_all add: completeProgressReset_def validateState_def Let_def)

lemma completeProgressReset_destroyed [simp]: "destroyed s \<Longrightarrow> completeProgressReset e s = s"
  by (simp add: completeProgressReset_def prim_defs)

lemma completeProgressReset_effect [simp]:
  "\<not> destroyed s \<Longrightarrow> pauseElapsed (completeProgressReset e s) = 0"
  "\<not> destroyed s \<Longrightarrow> startTs (completeProgressReset e s) = 0"
  "\<not> destroyed s \<Longrightarrow> timer (completeProgressReset e s) = None"
  "\<not> destroyed s \<Longrightarrow> animationFrame (completeProgressReset e s) = None"
  "\<not> destroyed s \<Longrightarrow> hasFill s \<Longrightarrow> progressEndHandler (completeProgressReset e s) = None"
  "\<not> destroyed s \<Longrightarrow> hasFill s \<Longrightarrow> fillWidth (completeProgressReset e s) = Percent 0"
  by (simp_all add: completeProgressReset_def validateState_def Let_def)

lemma completeProgressReset_scheduled:
  "set (timeouts (completeProgressReset e s)) \<subseteq> set (timeouts s)"
  "set (rafs (completeProgressReset e s)) \<subseteq> set (rafs s)"
  "set (listeners (completeProgressReset e s)) \<subseteq> set (listeners s)"
  using stopAuto_scheduled [of e s]
  by (simp_all add: completeProgressReset_def validateState_def Let_def)

subsection \<open>What startAuto changes\<close>

lemma startAuto_frame [simp]:
  "nslides (startAuto e s) = nslides s"
  "hasFill (startAuto e s) = hasFill s"
  "index (startAuto e s) = index s"
  "pauseElapsed (startAuto e s) = pauseElapsed s"
  "paused (startAuto e s) = paused s"
  "viewportPaused (startAuto e s) = viewportPaused s"
  "initialized (startAuto e s) = initialized s"
  "destroyed (startAuto e s) = destroyed s"
  "pausedByFullscreen (startAuto e s) = pausedByFullscreen s"
  "shouldAutoStart (startAuto e s) = shouldAutoStart s"
  "isInViewport (startAuto e s) = isInViewport s"
  "advancedCycles (startAuto e s) = advancedCycles s"
  "cleanupFns (startAuto e s) = cleanupFns s"
  "resizeObserving (startAuto e s) = resizeObserving s"
  by (simp_all add: startAuto_def validateState_def Let_def)

lemma startAuto_blocked [simp]: "destroyed s \<or> viewportPaused s \<Longrightarrow> startAuto e s = s"
  by (auto simp add: startAuto_def prim_defs)

lemma startAuto_timer:
  "timer (startAuto e s) =
     (if destroyed s \<or> viewportPaused s then timer s
      else if hasFill s then Some (Suc (Suc (Suc (nextId s)))) else None)"
  by (simp add: startAuto_def validateState_def Let_def)

lemma startAuto_fill:
  "\<not> destroyed s \<Longrightarrow> \<not> viewportPaused s \<Longrightarrow> hasFill s \<Longrightarrow>
     fillWidth (startAuto e s) = Percent (max 0 (min 1 (pauseElapsed s / intervalMs)) * 100)"
  "\<not> destroyed s \<Longrightarrow> \<not> viewportPaused s \<Longrightarrow> hasFill s \<Longrightarrow>
     fillTransition (startAuto e s) = Linear (max 16 (intervalMs - pauseElapsed s))"
  by (simp_all add: startAuto_def validateState_def remainingMs_def Let_def)

lemma startAuto_startTs:
  "\<not> destroyed s \<Longrightarrow> \<not> viewportPaused s \<Longrightarrow> startTs (startAuto e s) = now e - pauseElapsed s"
  by (simp add: startAuto_def validateState_def Let_def)

lemma startAuto_fallback:
  "\<not> destroyed s \<Longrightarrow> \<not> viewportPaused s \<Longrightarrow> hasFill s \<Longrightarrow>
     (Suc (Suc (Suc (nextId s))), Fallback (Suc (nextId s)),
        max 16 (intervalMs - pauseElapsed s) + 200) \<in> set (timeouts (startAuto e s))"
  by (simp add: startAuto_def validateState_def remainingMs_def Let_def)

subsection \<open>Clamping\<close>

lemma clamp_pct: "0 \<le> max 0 (min 1 (x::real)) * 100 \<and> max 0 (min 1 x) * 100 \<le> 100"
  by (simp add: max_def min_def)

lemma wc_stopAuto: "wellClamped s \<Longrightarrow> wellClamped (stopAuto e s)"
  by (simp add: wellClamped_def stopAuto_fill)

lemma wc_setActive: "wellClamped s \<Longrightarrow> wellClamped (setActive i r s)"
  by (simp add: wellClamped_def setActive_def prim_defs Let_def)

lemma wc_completeProgressReset: "wellClamped s \<Longrightarrow> wellClamped (completeProgressReset e s)"
  using wc_stopAuto [of s e]
  by (simp add: wellClamped_def completeProgressReset_def validateState_def Let_def intervalMs_def)

lemma wc_startAuto:
  assumes "wellClamped s"
  shows "wellClamped (startAuto e s)"
proof (cases "destroyed s \<or> viewportPaused s")
  case True
  with assms show ?thesis by simp
next
  case False
  show ?thesis
  proof (cases "hasFill s")
    case True
    with False assms show ?thesis
      using clamp_pct [of "pauseElapsed s / intervalMs"]
      by (simp add: wellClamped_def startAuto_fill)
  next
    case nf: False
    with False assms show ?thesis
      by (simp add: wellClamped_def startAuto_def validateState_def Let_def stopAuto_fill)
  qed
qed

lemma wc_upd [simp]:
  "wellClamped (s\<lparr>paused := b\<rparr>) = wellClamped s"
  "wellClamped (s\<lparr>viewportPaused := b\<rparr>) = wellClamped s"
  "wellClamped (s\<lparr>isInViewport := b\<rparr>) = wellClamped s"
  "wellClamped (s\<lparr>shouldAutoStart := b\<rparr>) = wellClamped s"
  "wellClamped (s\<lparr>pausedByFullscreen := b\<rparr>) = wellClamped s"
  "wellClamped (s\<lparr>initialized := b\<rparr>) = wellClamped s"
  "wellClamped (s\<lparr>destroyed := b\<rparr>) = wellClamped s"
  "wellClamped (s\<lparr>advancedCycles := cs\<rparr>) = wellClamped s"
  "wellClamped (s\<lparr>cleanupTimeouts := hs\<rparr>) = wellClamped s"
  "wellClamped (s\<lparr>cleanupRafs := hs\<rparr>) = wellClamped s"
  "wellClamped (s\<lparr>timer := t\<rparr>) = wellClamped s"
  "wellClamped (s\<lparr>animationFrame := t\<rparr>) = wellClamped s"
  "wellClamped (s\<lparr>progressEndHandler := t\<rparr>) = wellClamped s"
  "wellClamped (s\<lparr>timeouts := ts\<rparr>) = wellClamped s"
  "wellClamped (s\<lparr>rafs := hs\<rparr>) = wellClamped s"
  "wellClamped (s\<lparr>listeners := hs\<rparr>) = wellClamped s"
  "wellClamped (s\<lparr>nextId := k\<rparr>) = wellClamped s"
  "wellClamped (s\<lparr>cleanupFns := b\<rparr>) = wellClamped s"
  "wellClamped (s\<lparr>resizeObserving := b\<rparr>) = wellClamped s"
  "wellClamped (s\<lparr>index := i\<rparr>) = wellClamped s"
  "wellClamped (s\<lparr>startTs := x\<rparr>) = wellClamped s"
  by (simp_all add: wellClamped_def)

lemma wc_prims [simp]:
  "wellClamped (clearTimeout h s) = wellClamped s"
  "wellClamped (cancelAnimationFrame r s) = wellClamped s"
  "wellClamped (removeEventListener c s) = wellClamped s"
  by (simp_all add: prim_defs)

lemma wc_zero [simp]: "wellClamped s \<Longrightarrow> wellClamped (s\<lparr>pauseElapsed := 0\<rparr>)"
  by (simp add: wellClamped_def intervalMs_def)

lemmas wc_intros = wc_stopAuto wc_setActive wc_completeProgressReset wc_startAuto

lemma wc_releaseCycle [simp]: "wellClamped (releaseCycle s) = wellClamped s"
  by (simp add: wellClamped_def)

lemma wc_advance: "wellClamped s \<Longrightarrow> wellClamped (advance c e s)"
  by (auto simp add: advance_def Let_def intro!: wc_intros)

lemma wc_rafCallback: "wellClamped s \<Longrightarrow> wellClamped (rafCallback e s)"
  by (auto simp add: rafCallback_def Let_def wellClamped_def split: option.splits)

lemma wc_fallbackCallback: "wellClamped s \<Longrightarrow> wellClamped (fallbackCallback c e s)"
  by (auto simp add: fallbackCallback_def Let_def split: option.splits intro!: wc_advance)

lemma clamp_ms: "0 \<le> max 0 (min intervalMs x) \<and> max 0 (min intervalMs x) \<le> intervalMs"
  by (simp add: intervalMs_def max_def min_def)

lemma wc_pauseAutoplay: "wellClamped s \<Longrightarrow> wellClamped (pauseAutoplay e s)"
  using clamp_ms clamp_pct
  by (simp add: pauseAutoplay_def validateState_def Let_def wellClamped_def stopAuto_fill)

lemma wc_resumeAutoplay: "wellClamped s \<Longrightarrow> wellClamped (resumeAutoplay e s)"
  by (auto simp add: resumeAutoplay_def validateState_def intro!: wc_intros)

lemma wc_pauseForViewport: "wellClamped s \<Longrightarrow> wellClamped (pauseForViewport e s)"
  using clamp_ms clamp_pct
  by (simp add: pauseForViewport_def validateState_def Let_def wellClamped_def stopAuto_fill)

lemma wc_resumeFromViewportPause: "wellClamped s \<Longrightarrow> wellClamped (resumeFromViewportPause e s)"
  by (auto simp add: resumeFromViewportPause_def validateState_def Let_def intro!: wc_intros)

lemma wc_initialize: "wellClamped s \<Longrightarrow> wellClamped (initialize e s)"
  by (auto simp add: initialize_def validateState_def Let_def intro!: wc_intros)

lemma wc_initTimerCallback: "wellClamped s \<Longrightarrow> wellClamped (initTimerCallback h e s)"
  by (auto simp add: initTimerCallback_def Let_def intro!: wc_intros)

lemma wc_onFullscreenOpen: "wellClamped s \<Longrightarrow> wellClamped (onFullscreenOpen e s)"
  by (auto simp add: onFullscreenOpen_def validateState_def Let_def intro!: wc_pauseAutoplay)

lemma wc_onFullscreenClose: "wellClamped s \<Longrightarrow> wellClamped (onFullscreenClose e s)"
  by (auto simp add: onFullscreenClose_def validateState_def Let_def intro!: wc_intros)

lemma wc_resetProgress: "wellClamped s \<Longrightarrow> wellClamped (resetProgress s)"
  by (simp add: resetProgress_def validateState_def wellClamped_def)

lemma wc_restartOrReset: "wellClamped s \<Longrightarrow> wellClamped (restartOrReset e s)"
  by (auto simp add: restartOrReset_def intro!: wc_intros wc_resetProgress)

lemma wc_nextSlide: "wellClamped s \<Longrightarrow> wellClamped (nextSlide e s)"
  by (auto simp add: nextSlide_def validateState_def Let_def intro!: wc_intros)

lemma wc_prevSlide: "wellClamped s \<Longrightarrow> wellClamped (prevSlide e s)"
  by (auto simp add: prevSlide_def validateState_def Let_def intro!: wc_intros)

lemma wc_cleanup: "wellClamped s \<Longrightarrow> wellClamped (cleanup e s)"
  by (simp add: cleanup_def Let_def wellClamped_def intervalMs_def)

lemma wc_fireTimeout: "wellClamped s \<Longrightarrow> wellClamped (fireTimeout h e s)"
  by (auto simp add: fireTimeout_def split: option.splits task.splits
      intro!: wc_fallbackCallback wc_initTimerCallback)

lemma wc_step: "wellClamped s \<Longrightarrow> wellClamped (step e ev s)"
proof (cases ev)
  case (FireTimeout h)
  assume "wellClamped s"
  with FireTimeout show ?thesis by (simp add: wc_fireTimeout)
next
  case (FireRaf r)
  assume "wellClamped s"
  with FireRaf show ?thesis by (simp add: fireRaf_def wc_rafCallback)
next
  case (FireTransitionEnd c w)
  assume "wellClamped s"
  with FireTransitionEnd show ?thesis
    by (simp add: fireTransitionEnd_def progressEndHandlerCallback_def wc_advance)
qed (auto simp add: nextBtnClick_def prevBtnClick_def dotClick_def viewportClick_def
      validateState_def
      intro!: wc_initialize wc_pauseForViewport wc_resumeFromViewportPause wc_pauseAutoplay
        wc_resumeAutoplay wc_onFullscreenOpen wc_onFullscreenClose wc_restartOrReset
        wc_nextSlide wc_prevSlide wc_cleanup wc_intros)

lemma wc_run: "wellClamped s \<Longrightarrow> wellClamped (run es s)"
  by (induction es arbitrary: s) (simp_all add: wc_step)

lemma wc_new: "wellClamped (newCarousel n hf)"
  by (simp add: wellClamped_def newCarousel_def intervalMs_def)

subsection \<open>Index range\<close>

lemma smod_nonneg: "0 \<le> k \<Longrightarrow> 0 < l \<Longrightarrow> (k::int) smod l = k mod l"
  by (simp add: signed_modulo_int_def sgn_if)

lemma wrap_eq: "- int n \<le> i \<Longrightarrow> 0 < n \<Longrightarrow> (i + int n) smod int n = i mod int n"
  by (simp add: smod_nonneg)

lemma wrap_range: "- int n \<le> i \<Longrightarrow> 0 < n \<Longrightarrow>
    0 \<le> (i + int n) smod int n \<and> (i + int n) smod int n < int n"
  by (simp add: wrap_eq)

lemma advance_index:
  "index (advance c e s) =
     (if c \<in> set (advancedCycles s) \<or> viewportPaused s \<or> destroyed s \<or> paused s then index s
      else (index s + 1 + int (nslides s)) smod int (nslides s))"
  by (simp add: advance_def Let_def setActive_index)

lemma advance_nslides [simp]: "nslides (advance c e s) = nslides s"
  by (simp add: advance_def Let_def)

lemma ir_advance: "inRange s \<Longrightarrow> inRange (advance c e s)"
  using wrap_range [of "nslides s" "index s + 1"]
  by (auto simp add: inRange_def advance_index)

lemma ir_setActive: "inRange s \<Longrightarrow> - int (nslides s) \<le> i \<Longrightarrow> inRange (setActive i r s)"
  using wrap_range [of "nslides s" i]
  by (auto simp add: inRange_def setActive_index)

lemma ir_frame: "nslides t = nslides s \<Longrightarrow> index t = index s \<Longrightarrow> inRange s \<Longrightarrow> inRange t"
  by (simp add: inRange_def)

lemma ir_nextSlide: "inRange s \<Longrightarrow> inRange (nextSlide e s)"
  using wrap_range [of "nslides s" "index s + 1"]
  by (auto simp add: inRange_def nextSlide_def validateState_def Let_def setActive_index)

lemma ir_prevSlide: "inRange s \<Longrightarrow> inRange (prevSlide e s)"
  using wrap_range [of "nslides s" "index s - 1"]
  by (auto simp add: inRange_def prevSlide_def validateState_def Let_def setActive_index)

lemma pauseAutoplay_ix [simp]:
  "nslides (pauseAutoplay e s) = nslides s" "index (pauseAutoplay e s) = index s"
  by (simp_all add: pauseAutoplay_def validateState_def Let_def)

lemma resumeAutoplay_ix [simp]:
  "nslides (resumeAutoplay e s) = nslides s" "index (resumeAutoplay e s) = index s"
  by (simp_all add: resumeAutoplay_def validateState_def Let_def)

lemma pauseForViewport_ix [simp]:
  "nslides (pauseForViewport e s) = nslides s" "index (pauseForViewport e s) = index s"
  by (simp_all add: pauseForViewport_def validateState_def Let_def)

lemma resumeFromViewportPause_ix [simp]:
  "nslides (resumeFromViewportPause e s) = nslides s"
  "index (resumeFromViewportPause e s) = index s"
  by (simp_all add: resumeFromViewportPause_def validateState_def Let_def)

lemma onFullscreenOpen_ix [simp]:
  "nslides (onFullscreenOpen e s) = nslides s" "index (onFullscreenOpen e s) = index s"
  by (simp_all add: onFullscreenOpen_def validateState_def Let_def)

lemma onFullscreenClose_ix [simp]:
  "nslides (onFullscreenClose e s) = nslides s" "index (onFullscreenClose e s) = index s"
  by (simp_all add: onFullscreenClose_def validateState_def Let_def)

lemma restartOrReset_ix [simp]:
  "nslides (restartOrReset e s) = nslides s" "index (restartOrReset e s) = index s"
  by (simp_all add: restartOrReset_def resetProgress_def validateState_def)

lemma ir_initialize: "inRange s \<Longrightarrow> inRange (initialize e s)"
  using wrap_range [of "nslides s" 0]
  by (auto simp add: inRange_def initialize_def validateState_def Let_def setActive_index)

lemma ir_initTimerCallback: "inRange s \<Longrightarrow> inRange (initTimerCallback h e s)"
  by (simp add: inRange_def initTimerCallback_def Let_def)

lemma ir_fallbackCallback: "inRange s \<Longrightarrow> inRange (fallbackCallback c e s)"
  using ir_advance [of s c e]
  by (auto simp add: inRange_def fallbackCallback_def Let_def split: option.splits)

lemma ir_rafCallback: "inRange s \<Longrightarrow> inRange (rafCallback e s)"
  by (simp add: inRange_def rafCallback_def Let_def split: option.splits)

lemma ir_cleanup: "inRange s \<Longrightarrow> inRange (cleanup e s)"
  by (simp add: inRange_def cleanup_def Let_def)

lemma ir_prims [simp]:
  "inRange (clearTimeout h s) = inRange s"
  "inRange (cancelAnimationFrame r s) = inRange s"
  "inRange (removeEventListener c s) = inRange s"
  by (simp_all add: prim_defs inRange_def)

lemma ir_fireTimeout: "inRange s \<Longrightarrow> inRange (fireTimeout h e s)"
  by (auto simp add: fireTimeout_def split: option.splits task.splits
      intro!: ir_fallbackCallback ir_initTimerCallback)

lemma ir_dotClick: "inRange s \<Longrightarrow> inRange (dotClick idx e s)"
  using wrap_range [of "nslides s" "int idx"]
  by (auto simp add: inRange_def dotClick_def validateState_def setActive_index)

lemma ir_nav:
  "inRange s \<Longrightarrow> inRange (nextBtnClick e s)"
  "inRange s \<Longrightarrow> inRange (prevBtnClick e s)"
  "inRange s \<Longrightarrow> inRange (viewportClick b e s)"
  using ir_nextSlide [of s e] ir_prevSlide [of s e]
  by (auto simp add: nextBtnClick_def prevBtnClick_def viewportClick_def inRange_def)

lemma ir_step: "inRange s \<Longrightarrow> inRange (step e ev s)"
proof (cases ev)
  case (FireTimeout h)
  assume "inRange s"
  with FireTimeout show ?thesis by (simp add: ir_fireTimeout)
next
  case (FireRaf r)
  assume "inRange s"
  with FireRaf show ?thesis by (simp add: fireRaf_def ir_rafCallback)
next
  case (FireTransitionEnd c w)
  assume "inRange s"
  with FireTransitionEnd show ?thesis
    by (simp add: fireTransitionEnd_def progressEndHandlerCallback_def ir_advance)
qed (auto simp add: ir_nav ir_dotClick ir_initialize ir_cleanup intro: ir_frame)

lemma ir_run: "inRange s \<Longrightarrow> inRange (run es s)"
  by (induction es arbitrary: s) (simp_all add: ir_step)

lemma ir_new: "1 \<le> n \<Longrightarrow> inRange (newCarousel n hf)"
  by (simp add: inRange_def newCarousel_def)

subsection \<open>Teardown\<close>

lemma cleanup_destroyed [simp]: "destroyed (cleanup e s)"
  by (simp add: cleanup_def Let_def)

lemma cleanup_twice: "cleanup e2 (cleanup e1 s) = cleanup e1 s"
  by (simp add: cleanup_def [of e2])

lemma cleanup_funpow: "((cleanup e) ^^ Suc k) s = cleanup e s"
  by (induction k) (simp_all add: cleanup_twice)

lemma advance_stale [simp]: "destroyed s \<Longrightarrow> advance c e s = s"
  by (simp add: advance_def)

lemma public_noop_when_destroyed:
  assumes "destroyed s"
  shows "initialize e s = s" "pauseForViewport e s = s" "resumeFromViewportPause e s = s"
    "pauseAutoplay e s = s" "resumeAutoplay e s = s" "onFullscreenOpen e s = s"
    "onFullscreenClose e s = s" "nextBtnClick e s = s" "prevBtnClick e s = s"
    "dotClick idx e s = s" "viewportClick b e s = s" "cleanup e s = s"
    "nextSlide e s = s" "prevSlide e s = s" "setActive i r s = s" "stopAuto e s = s"
    "startAuto e s = s" "completeProgressReset e s = s" "resetProgress s = s"
  using assms
  by (simp_all add: initialize_def pauseForViewport_def resumeFromViewportPause_def
      pauseAutoplay_def resumeAutoplay_def onFullscreenOpen_def onFullscreenClose_def
      nextBtnClick_def prevBtnClick_def dotClick_def viewportClick_def cleanup_def
      nextSlide_def prevSlide_def resetProgress_def validateState_def)

lemma fallbackCallback_stale:
  "destroyed s \<Longrightarrow> fallbackCallback c e s =
     s\<lparr>cleanupTimeouts := (case timer s of None \<Rightarrow> cleanupTimeouts s
                             | Some t \<Rightarrow> removeAll t (cleanupTimeouts s)),
       timer := None\<rparr>"
  by (simp add: fallbackCallback_def Let_def split: option.splits)

lemma rafCallback_stale:
  "destroyed s \<Longrightarrow> rafCallback e s =
     s\<lparr>cleanupRafs := (case animationFrame s of None \<Rightarrow> cleanupRafs s
                         | Some r \<Rightarrow> removeAll r (cleanupRafs s)),
       animationFrame := None\<rparr>"
  by (simp add: rafCallback_def Let_def split: option.splits)

lemma initTimerCallback_stale:
  "destroyed s \<Longrightarrow> initTimerCallback h e s = s\<lparr>cleanupTimeouts := removeAll h (cleanupTimeouts s)\<rparr>"
  by (simp add: initTimerCallback_def Let_def)

lemma step_public_destroyed: "destroyed s \<Longrightarrow> publicEvent ev \<Longrightarrow> step e ev s = s"
  by (cases ev) (simp_all add: publicEvent_def public_noop_when_destroyed)

lemma step_destroyed: "destroyed s \<Longrightarrow> destroyed (step e ev s)"
proof (cases ev)
  case (FireTimeout h)
  assume "destroyed s"
  with FireTimeout show ?thesis
    by (simp add: fireTimeout_def fallbackCallback_stale initTimerCallback_stale prim_defs
        split: option.splits task.splits)
next
  case (FireRaf r)
  assume "destroyed s"
  with FireRaf show ?thesis by (simp add: fireRaf_def rafCallback_stale prim_defs)
next
  case (FireTransitionEnd c w)
  assume "destroyed s"
  with FireTransitionEnd show ?thesis
    by (simp add: fireTransitionEnd_def progressEndHandlerCallback_def prim_defs)
qed (simp_all add: public_noop_when_destroyed)

lemma run_destroyed: "destroyed s \<Longrightarrow> destroyed (run es s)"
  by (induction es arbitrary: s) (simp_all add: step_destroyed)

lemma nextSlide_index:
  "\<not> destroyed s \<Longrightarrow>
     index (nextSlide e s) = (index s + 1 + int (nslides s)) smod int (nslides s)"
  "\<not> destroyed s \<Longrightarrow>
     index (prevSlide e s) = (index s - 1 + int (nslides s)) smod int (nslides s)"
  "\<not> destroyed s \<Longrightarrow>
     index (dotClick idx e s) = (int idx + int (nslides s)) smod int (nslides s)"
  by (simp_all add: nextSlide_def prevSlide_def dotClick_def validateState_def Let_def
      setActive_index)

subsection \<open>The modal\<close>

lemma showCurrentImage_ok:
  "0 \<le> currentIndex m \<Longrightarrow> currentIndex m < int (length (currentImages m)) \<Longrightarrow>
     showCurrentImage m =
       Inr (m\<lparr>imageSrc := src (currentImages m ! nat (currentIndex m)),
               imageAlt := alt (currentImages m ! nat (currentIndex m)),
               counter := (currentIndex m + 1, length (currentImages m)),
               navShown := (length (currentImages m) > 1)\<rparr>)"
  by (auto simp add: showCurrentImage_def Let_def)

lemma nextImage_frame:
  "carousels (snd (nextImage p)) = carousels p"
  "vo (snd (nextImage p)) = vo p"
  "currentImages (fs (snd (nextImage p))) = currentImages (fs p)"
  "originalCarousel (fs (snd (nextImage p))) = originalCarousel (fs p)"
  by (auto simp add: nextImage_def showCurrentImage_def Let_def split: sum.splits if_splits)

lemma prevImage_frame:
  "carousels (snd (prevImage p)) = carousels p"
  "vo (snd (prevImage p)) = vo p"
  "currentImages (fs (snd (prevImage p))) = currentImages (fs p)"
  "originalCarousel (fs (snd (prevImage p))) = originalCarousel (fs p)"
  by (auto simp add: prevImage_def showCurrentImage_def Let_def split: sum.splits if_splits)

lemma nextImage_index:
  assumes "0 \<le> currentIndex (fs p)" and "1 < length (currentImages (fs p))"
  shows "fst (nextImage p) = None"
    and "currentIndex (fs (snd (nextImage p)))
           = (currentIndex (fs p) + 1) mod int (length (currentImages (fs p)))"
    and "imageSrc (fs (snd (nextImage p)))
           = src (currentImages (fs p) ! nat ((currentIndex (fs p) + 1) mod int (length (currentImages (fs p)))))"
proof -
  let ?n = "int (length (currentImages (fs p)))"
  let ?j = "(currentIndex (fs p) + 1) mod ?n"
  have j: "(currentIndex (fs p) + 1) smod ?n = ?j"
  proof (rule smod_nonneg)
    show "0 \<le> currentIndex (fs p) + 1" using assms(1) by simp
    show "0 < ?n" using assms(2) by auto
  qed
  have n0: "0 < ?n" using assms(2) by auto
  have r: "0 \<le> ?j" "?j < ?n"
    by (rule pos_mod_sign [OF n0], rule pos_mod_bound [OF n0])
  let ?m1 = "(fs p)\<lparr>currentIndex := ?j\<rparr>"
  have s: "showCurrentImage ?m1 =
       Inr (?m1\<lparr>imageSrc := src (currentImages ?m1 ! nat (currentIndex ?m1)),
               imageAlt := alt (currentImages ?m1 ! nat (currentIndex ?m1)),
               counter := (currentIndex ?m1 + 1, length (currentImages ?m1)),
               navShown := (length (currentImages ?m1) > 1)\<rparr>)"
    using r by (intro showCurrentImage_ok) simp_all
  show "fst (nextImage p) = None"
    using assms(2) by (simp add: nextImage_def j s)
  show "currentIndex (fs (snd (nextImage p))) = ?j"
    using assms(2) by (simp add: nextImage_def j s)
  show "imageSrc (fs (snd (nextImage p))) = src (currentImages (fs p) ! nat ?j)"
    using assms(2) by (simp add: nextImage_def j s)
qed

lemma prevImage_index:
  assumes "0 \<le> currentIndex (fs p)" and "1 < length (currentImages (fs p))"
  shows "fst (prevImage p) = None"
    and "currentIndex (fs (snd (prevImage p)))
           = (currentIndex (fs p) - 1) mod int (length (currentImages (fs p)))"
    and "imageSrc (fs (snd (prevImage p)))
           = src (currentImages (fs p) ! nat ((currentIndex (fs p) - 1) mod int (length (currentImages (fs p)))))"
proof -
  let ?n = "int (length (currentImages (fs p)))"
  let ?j = "(currentIndex (fs p) - 1) mod ?n"
  have j: "(currentIndex (fs p) - 1 + ?n) smod ?n = ?j"
  proof (rule wrap_eq)
    show "- ?n \<le> currentIndex (fs p) - 1" using assms by auto
    show "0 < length (currentImages (fs p))" using assms(2) by auto
  qed
  have n0: "0 < ?n" using assms(2) by auto
  have r: "0 \<le> ?j" "?j < ?n"
    by (rule pos_mod_sign [OF n0], rule pos_mod_bound [OF n0])
  let ?m1 = "(fs p)\<lparr>currentIndex := ?j\<rparr>"
  have s: "showCurrentImage ?m1 =
       Inr (?m1\<lparr>imageSrc := src (currentImages ?m1 ! nat (currentIndex ?m1)),
               imageAlt := alt (currentImages ?m1 ! nat (currentIndex ?m1)),
               counter := (currentIndex ?m1 + 1, length (currentImages ?m1)),
               navShown := (length (currentImages ?m1) > 1)\<rparr>)"
    using r by (intro showCurrentImage_ok) simp_all
  show "fst (prevImage p) = None"
    using assms(2) by (simp add: prevImage_def j s)
  show "currentIndex (fs (snd (prevImage p))) = ?j"
    using assms(2) by (simp add: prevImage_def j s)
  show "imageSrc (fs (snd (prevImage p))) = src (currentImages (fs p) ! nat ?j)"
    using assms(2) by (simp add: prevImage_def j s)
qed

lemma carouselEvent_fs: "fs (carouselEvent k e ev p) = fs p"
  by (simp add: carouselEvent_def split: option.splits)

lemma onIntersection_fs: "fs (onIntersection k b e p) = fs p"
  by (simp add: onIntersection_def split: option.splits)

subsection \<open>The observer\<close>

lemma observe_unsupported:
  "\<not> observer m \<Longrightarrow> observe False k m = m"
  by (cases m) (simp add: observe_def initObserver_def newIntersectionObserver_def)

lemma onIntersection_no_observer: "\<not> observer (vo p) \<Longrightarrow> onIntersection k b e p = p"
  by (simp add: onIntersection_def)

lemma runEntries_no_observer: "\<not> observer (vo p) \<Longrightarrow> runEntries xs p = p"
  by (induction xs arbitrary: p) (simp_all add: onIntersection_no_observer)

subsection \<open>Freshness of handles\<close>

lemma hf_stopAuto: "handlesFresh s \<Longrightarrow> handlesFresh (stopAuto e s)"
  by (auto simp add: handlesFresh_def stopAuto_def prim_defs Let_def split: option.splits)

lemma hf_setActive: "handlesFresh s \<Longrightarrow> handlesFresh (setActive i r s)"
  by (simp add: handlesFresh_def)

lemma completeProgressReset_lists [simp]:
  "timeouts (completeProgressReset e s) = timeouts (stopAuto e s)"
  "listeners (completeProgressReset e s) = listeners (stopAuto e s)"
  "rafs (completeProgressReset e s) = rafs (stopAuto e s)"
  "timer (completeProgressReset e s) = timer (stopAuto e s)"
  "animationFrame (completeProgressReset e s) = animationFrame (stopAuto e s)"
  "progressEndHandler (completeProgressReset e s) = progressEndHandler (stopAuto e s)"
  "cleanupTimeouts (completeProgressReset e s) = cleanupTimeouts (stopAuto e s)"
  "cleanupRafs (completeProgressReset e s) = cleanupRafs (stopAuto e s)"
  by (simp_all add: completeProgressReset_def validateState_def Let_def)

lemma hf_completeProgressReset: "handlesFresh s \<Longrightarrow> handlesFresh (completeProgressReset e s)"
  using hf_stopAuto [of s e] by (simp add: handlesFresh_def)

lemma startAuto_nextId:
  "nextId (startAuto e s) =
     (if destroyed s \<or> viewportPaused s \<or> \<not> hasFill s then nextId s
      else Suc (Suc (Suc (nextId s))))"
  by (simp add: startAuto_def validateState_def Let_def)

lemma startAuto_lists:
  "\<not> destroyed s \<Longrightarrow> \<not> viewportPaused s \<Longrightarrow> hasFill s \<Longrightarrow>
     timeouts (startAuto e s) = timeouts (stopAuto e s)
        @ [(Suc (Suc (Suc (nextId s))), Fallback (Suc (nextId s)),
            max 16 (intervalMs - pauseElapsed s) + 200)]"
  "\<not> destroyed s \<Longrightarrow> \<not> viewportPaused s \<Longrightarrow> hasFill s \<Longrightarrow>
     listeners (startAuto e s) = listeners (stopAuto e s) @ [Suc (nextId s)]"
  "\<not> destroyed s \<Longrightarrow> \<not> viewportPaused s \<Longrightarrow> hasFill s \<Longrightarrow>
     progressEndHandler (startAuto e s) = Some (Suc (nextId s))"
  "\<not> destroyed s \<Longrightarrow> \<not> viewportPaused s \<Longrightarrow> \<not> hasFill s \<Longrightarrow>
     timeouts (startAuto e s) = timeouts (stopAuto e s)"
  "\<not> destroyed s \<Longrightarrow> \<not> viewportPaused s \<Longrightarrow> \<not> hasFill s \<Longrightarrow>
     listeners (startAuto e s) = listeners (stopAuto e s)"
  "\<not> destroyed s \<Longrightarrow> \<not> viewportPaused s \<Longrightarrow> \<not> hasFill s \<Longrightarrow>
     progressEndHandler (startAuto e s) = progressEndHandler (stopAuto e s)"
  by (simp_all add: startAuto_def validateState_def remainingMs_def Let_def)

lemma hf_startAuto:
  assumes "handlesFresh s"
  shows "handlesFresh (startAuto e s)"
proof (cases "destroyed s \<or> viewportPaused s")
  case True
  with assms show ?thesis by simp
next
  case False
  show ?thesis
  proof (cases "hasFill s")
    case True
    with False hf_stopAuto [OF assms, of e] show ?thesis
      by (auto simp add: handlesFresh_def startAuto_lists startAuto_nextId startAuto_timer
          le_Suc_eq)
  next
    case nf: False
    with False hf_stopAuto [OF assms, of e] show ?thesis
      by (auto simp add: handlesFresh_def startAuto_lists startAuto_nextId startAuto_timer
          le_Suc_eq)
  qed
qed

lemma hf_releaseCycle: "handlesFresh s \<Longrightarrow> handlesFresh (releaseCycle s)"
  by (auto simp add: handlesFresh_def releaseCycle_lists releaseCycle_peh split: option.splits)

lemma hf_advance:
  assumes "handlesFresh s" and "c \<le> nextId s"
  shows "handlesFresh (advance c e s)"
proof -
  have "handlesFresh (s\<lparr>advancedCycles := c # advancedCycles s\<rparr>)"
    using assms by (simp add: handlesFresh_def)
  then have "handlesFresh (releaseCycle (s\<lparr>advancedCycles := c # advancedCycles s\<rparr>))"
    by (rule hf_releaseCycle)
  then have "handlesFresh ((releaseCycle (s\<lparr>advancedCycles := c # advancedCycles s\<rparr>))\<lparr>pauseElapsed := 0\<rparr>)"
    by (simp add: handlesFresh_def)
  then show ?thesis
    using assms(1) by (auto simp add: advance_def Let_def intro!: hf_startAuto hf_setActive)
qed

lemma hf_upd [simp]:
  "handlesFresh (s\<lparr>paused := b\<rparr>) = handlesFresh s"
  "handlesFresh (s\<lparr>viewportPaused := b\<rparr>) = handlesFresh s"
  "handlesFresh (s\<lparr>isInViewport := b\<rparr>) = handlesFresh s"
  "handlesFresh (s\<lparr>shouldAutoStart := b\<rparr>) = handlesFresh s"
  "handlesFresh (s\<lparr>pausedByFullscreen := b\<rparr>) = handlesFresh s"
  "handlesFresh (s\<lparr>initialized := b\<rparr>) = handlesFresh s"
  "handlesFresh (s\<lparr>destroyed := b\<rparr>) = handlesFresh s"
  "handlesFresh (s\<lparr>pauseElapsed := x\<rparr>) = handlesFresh s"
  "handlesFresh (s\<lparr>startTs := x\<rparr>) = handlesFresh s"
  "handlesFresh (s\<lparr>fillWidth := w\<rparr>) = handlesFresh s"
  "handlesFresh (s\<lparr>fillTransition := tr\<rparr>) = handlesFresh s"
  "handlesFresh (s\<lparr>index := i\<rparr>) = handlesFresh s"
  "handlesFresh (s\<lparr>cleanupTimeouts := hs\<rparr>) = handlesFresh s"
  "handlesFresh (s\<lparr>cleanupRafs := hs\<rparr>) = handlesFresh s"
  "handlesFresh (s\<lparr>animationFrame := a\<rparr>) = handlesFresh s"
  "handlesFresh (s\<lparr>rafs := hs\<rparr>) = handlesFresh s"
  "handlesFresh (s\<lparr>cleanupFns := b\<rparr>) = handlesFresh s"
  "handlesFresh (s\<lparr>resizeObserving := b\<rparr>) = handlesFresh s"
  by (simp_all add: handlesFresh_def)

lemma hf_timer_None: "handlesFresh s \<Longrightarrow> handlesFresh (s\<lparr>timer := None\<rparr>)"
  by (simp add: handlesFresh_def)

lemma hf_filter:
  "handlesFresh s \<Longrightarrow> handlesFresh (s\<lparr>timeouts := filter P (timeouts s)\<rparr>)"
  by (auto simp add: handlesFresh_def)

lemmas hf_intros = hf_stopAuto hf_setActive hf_completeProgressReset hf_startAuto

lemma hf_rafCallback: "handlesFresh s \<Longrightarrow> handlesFresh (rafCallback e s)"
  by (auto simp add: rafCallback_def Let_def split: option.splits)

lemma hf_fallbackCallback:
  "handlesFresh s \<Longrightarrow> c \<le> nextId s \<Longrightarrow> handlesFresh (fallbackCallback c e s)"
  by (auto simp add: fallbackCallback_def Let_def split: option.splits
      intro!: hf_timer_None hf_advance)

lemma hf_pauseAutoplay: "handlesFresh s \<Longrightarrow> handlesFresh (pauseAutoplay e s)"
  by (auto simp add: pauseAutoplay_def validateState_def Let_def intro!: hf_intros)

lemma hf_resumeAutoplay: "handlesFresh s \<Longrightarrow> handlesFresh (resumeAutoplay e s)"
  by (auto simp add: resumeAutoplay_def validateState_def intro!: hf_intros)

lemma hf_pauseForViewport: "handlesFresh s \<Longrightarrow> handlesFresh (pauseForViewport e s)"
  by (auto simp add: pauseForViewport_def validateState_def Let_def intro!: hf_intros)

lemma hf_resumeFromViewportPause:
  "handlesFresh s \<Longrightarrow> handlesFresh (resumeFromViewportPause e s)"
  by (auto simp add: resumeFromViewportPause_def validateState_def Let_def intro!: hf_intros)

lemma hf_initialize: "handlesFresh s \<Longrightarrow> handlesFresh (initialize e s)"
proof -
  assume h: "handlesFresh s"
  have "handlesFresh (setActive 0 True (completeProgressReset e (s\<lparr>initialized := True, isInViewport := True\<rparr>)))"
    (is "handlesFresh ?s2")
    using h by (auto intro!: hf_intros)
  then have "handlesFresh (?s2\<lparr>timeouts := timeouts ?s2 @ [(Suc (nextId ?s2), InitTimer, 100)],
                cleanupTimeouts := Suc (nextId ?s2) # cleanupTimeouts ?s2,
                nextId := Suc (nextId ?s2)\<rparr>)"
    by (auto simp add: handlesFresh_def le_Suc_eq)
  with h \<open>handlesFresh ?s2\<close> show ?thesis
    by (simp add: initialize_def validateState_def Let_def)
qed

lemma hf_initTimerCallback: "handlesFresh s \<Longrightarrow> handlesFresh (initTimerCallback h e s)"
  by (auto simp add: initTimerCallback_def Let_def intro!: hf_intros)

lemma hf_onFullscreenOpen: "handlesFresh s \<Longrightarrow> handlesFresh (onFullscreenOpen e s)"
  by (auto simp add: onFullscreenOpen_def validateState_def Let_def intro!: hf_pauseAutoplay)

lemma hf_onFullscreenClose: "handlesFresh s \<Longrightarrow> handlesFresh (onFullscreenClose e s)"
  by (auto simp add: onFullscreenClose_def validateState_def Let_def intro!: hf_intros)

lemma hf_resetProgress: "handlesFresh s \<Longrightarrow> handlesFresh (resetProgress s)"
  by (simp add: resetProgress_def validateState_def)

lemma hf_restartOrReset: "handlesFresh s \<Longrightarrow> handlesFresh (restartOrReset e s)"
  by (auto simp add: restartOrReset_def intro!: hf_intros hf_resetProgress)

lemma hf_nextSlide: "handlesFresh s \<Longrightarrow> handlesFresh (nextSlide e s)"
  by (auto simp add: nextSlide_def validateState_def Let_def intro!: hf_intros)

lemma hf_prevSlide: "handlesFresh s \<Longrightarrow> handlesFresh (prevSlide e s)"
  by (auto simp add: prevSlide_def validateState_def Let_def intro!: hf_intros)

lemma hf_cleanup: "handlesFresh s \<Longrightarrow> handlesFresh (cleanup e s)"
  by (auto simp add: cleanup_def Let_def handlesFresh_def)

lemma hf_fireTimeout: "handlesFresh s \<Longrightarrow> handlesFresh (fireTimeout h e s)"
proof (cases "map_of (timeouts s) h")
  case None
  assume "handlesFresh s"
  with None show ?thesis by (simp add: fireTimeout_def)
next
  case (Some y)
  assume hf: "handlesFresh s"
  obtain tk d where y: "y = (tk, d)" by (cases y)
  from Some y have m: "(h, tk, d) \<in> set (timeouts s)" by (simp add: map_of_SomeD)
  have f: "handlesFresh (clearTimeout h s)"
    using hf by (simp add: clearTimeout_def hf_filter)
  show ?thesis
  proof (cases tk)
    case (Fallback c)
    with m hf have "c \<le> nextId s" by (auto simp add: handlesFresh_def)
    then have "c \<le> nextId (clearTimeout h s)" by (simp add: clearTimeout_def)
    with f Some y Fallback show ?thesis
      by (simp add: fireTimeout_def hf_fallbackCallback)
  next
    case InitTimer
    with f Some y show ?thesis by (simp add: fireTimeout_def hf_initTimerCallback)
  qed
qed

lemma hf_step: "handlesFresh s \<Longrightarrow> handlesFresh (step e ev s)"
proof (cases ev)
  case (FireTimeout h)
  assume "handlesFresh s"
  with FireTimeout show ?thesis by (simp add: hf_fireTimeout)
next
  case (FireRaf r)
  assume "handlesFresh s"
  with FireRaf show ?thesis by (simp add: fireRaf_def prim_defs hf_rafCallback)
next
  case (FireTransitionEnd c w)
  assume h: "handlesFresh s"
  have "handlesFresh (removeEventListener c s)"
    using h by (auto simp add: handlesFresh_def prim_defs)
  moreover have "c \<in> set (listeners s) \<Longrightarrow> c \<le> nextId (removeEventListener c s)"
    using h by (auto simp add: handlesFresh_def prim_defs)
  ultimately show ?thesis
    using h FireTransitionEnd
    by (simp add: fireTransitionEnd_def progressEndHandlerCallback_def hf_advance)
qed (auto simp add: nextBtnClick_def prevBtnClick_def dotClick_def viewportClick_def
      validateState_def
      intro!: hf_initialize hf_pauseForViewport hf_resumeFromViewportPause hf_pauseAutoplay
        hf_resumeAutoplay hf_onFullscreenOpen hf_onFullscreenClose hf_restartOrReset
        hf_nextSlide hf_prevSlide hf_cleanup hf_intros)

lemma hf_run: "handlesFresh s \<Longrightarrow> handlesFresh (run es s)"
  by (induction es arbitrary: s) (simp_all add: hf_step)

lemma hf_new: "handlesFresh (newCarousel n hf)"
  by (simp add: handlesFresh_def newCarousel_def)

lemma step_consts [simp]: "nslides (step e ev s) = nslides s" "hasFill (step e ev s) = hasFill s"
proof -
  have a: "nslides (fallbackCallback c e s) = nslides s \<and> hasFill (fallbackCallback c e s) = hasFill s" for c s
    by (simp add: fallbackCallback_def advance_def Let_def split: option.splits)
  have b: "nslides (initTimerCallback h e s) = nslides s \<and> hasFill (initTimerCallback h e s) = hasFill s" for h s
    by (simp add: initTimerCallback_def Let_def)
  have c: "nslides (fireTimeout h e s) = nslides s \<and> hasFill (fireTimeout h e s) = hasFill s" for h
    by (simp add: fireTimeout_def a b prim_defs split: option.splits task.splits)
  have d: "nslides (restartOrReset e s) = nslides s \<and> hasFill (restartOrReset e s) = hasFill s" for s
    by (simp add: restartOrReset_def resetProgress_def validateState_def)
  show "nslides (step e ev s) = nslides s" "hasFill (step e ev s) = hasFill s"
    by (cases ev; simp add: c d initialize_def pauseForViewport_def resumeFromViewportPause_def
        pauseAutoplay_def resumeAutoplay_def onFullscreenOpen_def onFullscreenClose_def
        nextBtnClick_def prevBtnClick_def dotClick_def viewportClick_def nextSlide_def
        prevSlide_def cleanup_def fireRaf_def rafCallback_def fireTransitionEnd_def
        progressEndHandlerCallback_def advance_def prim_defs validateState_def Let_def
        split: option.splits)+
qed

lemma run_nslides [simp]: "nslides (run es s) = nslides s"
  by (induction es arbitrary: s) simp_all

lemma run_hasFill [simp]: "hasFill (run es s) = hasFill s"
  by (induction es arbitrary: s) simp_all

subsection \<open>One autoplay cycle\<close>

lemma advance_effect:
  assumes "c \<notin> set (advancedCycles s)" and "\<not> viewportPaused s" and "\<not> destroyed s"
    and "\<not> paused s" and "hasFill s"
  shows "advancedCycles (advance c e s) = c # advancedCycles s"
    and "timeouts (advance c e s) =
           (case timer s of None \<Rightarrow> timeouts s
            | Some t \<Rightarrow> filter (\<lambda>x. fst x \<noteq> t) (timeouts s))
           @ [(Suc (Suc (Suc (nextId s))), Fallback (Suc (nextId s)), intervalMs + 200)]"
    and "listeners (advance c e s) =
           (case progressEndHandler s of None \<Rightarrow> listeners s
            | Some c' \<Rightarrow> removeAll c' (listeners s)) @ [Suc (nextId s)]"
    and "nextId (advance c e s) = Suc (Suc (Suc (nextId s)))"
    and "timer (advance c e s) = Some (Suc (Suc (Suc (nextId s))))"
  using assms
  by (simp_all add: advance_def Let_def startAuto_lists startAuto_nextId startAuto_timer
      stopAuto_lists releaseCycle_lists intervalMs_def split: option.splits)

lemma advance_guard: "c \<in> set (advancedCycles s) \<Longrightarrow> advance c e s = s"
  by (simp add: advance_def)

lemma fallbackCallback_fields:
  "index (fallbackCallback c e s) =
     index (if \<not> viewportPaused s \<and> \<not> destroyed s \<and> \<not> paused s
               \<and> c \<notin> set (advancedCycles s) then advance c e s else s)"
  "advancedCycles (fallbackCallback c e s) =
     advancedCycles (if \<not> viewportPaused s \<and> \<not> destroyed s \<and> \<not> paused s
               \<and> c \<notin> set (advancedCycles s) then advance c e s else s)"
  "listeners (fallbackCallback c e s) =
     listeners (if \<not> viewportPaused s \<and> \<not> destroyed s \<and> \<not> paused s
               \<and> c \<notin> set (advancedCycles s) then advance c e s else s)"
  by (simp_all add: fallbackCallback_def Let_def split: option.splits)

lemma map_of_fresh_append:
  "\<forall>x \<in> set xs. fst x \<noteq> k \<Longrightarrow> map_of (xs @ [(k, v)]) k = Some v"
  by (induction xs) auto

lemma map_of_filtered: "map_of (filter (\<lambda>x. fst x \<noteq> k) xs @ [(k', v)]) k = (if k = k' then Some v else None)"
  by (induction xs) auto

lemma stopAuto_timeouts_subset: "x \<in> set (timeouts (stopAuto e s)) \<Longrightarrow> x \<in> set (timeouts s)"
  using stopAuto_scheduled(1) [of e s] by auto

subsection \<open>Pausing and resuming\<close>

lemma clamp_id: "0 \<le> x \<Longrightarrow> x \<le> intervalMs \<Longrightarrow> max 0 (min intervalMs x) = x"
  by (simp add: max_def min_def)

lemma clamp_frac: "0 \<le> x \<Longrightarrow> x \<le> intervalMs \<Longrightarrow> max 0 (min 1 (x / intervalMs)) = x / intervalMs"
  by (simp add: max_def min_def intervalMs_def)

lemma pauseForViewport_effect:
  assumes "\<not> destroyed s" and "\<not> viewportPaused s"
  shows "viewportPaused (pauseForViewport e s)" and "\<not> isInViewport (pauseForViewport e s)"
    and "timer (pauseForViewport e s) = None"
    and "pauseElapsed (pauseForViewport e s) =
           (if timer s \<noteq> None \<and> \<not> paused s
            then max 0 (min intervalMs (now e - startTs s)) else pauseElapsed s)"
    and "hasFill s \<Longrightarrow> fillWidth (pauseForViewport e s) =
           Percent (max 0 (min 1 (pauseElapsed (pauseForViewport e s) / intervalMs)) * 100)"
    and "paused (pauseForViewport e s) = paused s"
    and "pausedByFullscreen (pauseForViewport e s) = pausedByFullscreen s"
    and "shouldAutoStart (pauseForViewport e s) = shouldAutoStart s"
    and "destroyed (pauseForViewport e s) = destroyed s"
    and "hasFill (pauseForViewport e s) = hasFill s"
    and "initialized (pauseForViewport e s) = initialized s"
  using assms by (simp_all add: pauseForViewport_def validateState_def Let_def)

lemma pauseAutoplay_effect:
  assumes "\<not> destroyed s" and "\<not> paused s"
  shows "paused (pauseAutoplay e s)"
    and "timer (pauseAutoplay e s) = None"
    and "pauseElapsed (pauseAutoplay e s) =
           max 0 (min intervalMs (if startTs s \<noteq> 0 then now e - startTs s else 0))"
    and "hasFill s \<Longrightarrow> fillWidth (pauseAutoplay e s) =
           Percent (max 0 (min 1 (pauseElapsed (pauseAutoplay e s) / intervalMs)) * 100)"
    and "viewportPaused (pauseAutoplay e s) = viewportPaused s"
    and "pausedByFullscreen (pauseAutoplay e s) = pausedByFullscreen s"
    and "shouldAutoStart (pauseAutoplay e s) = shouldAutoStart s"
    and "destroyed (pauseAutoplay e s) = destroyed s"
    and "hasFill (pauseAutoplay e s) = hasFill s"
    and "initialized (pauseAutoplay e s) = initialized s"
    and "isInViewport (pauseAutoplay e s) = isInViewport s"
  using assms by (simp_all add: pauseAutoplay_def validateState_def Let_def)

lemma startAuto_scheduled:
  assumes "\<not> destroyed s" and "\<not> viewportPaused s" and "hasFill s"
  shows "\<exists>t c. timer (startAuto e s) = Some t
           \<and> (t, Fallback c, max 16 (intervalMs - pauseElapsed s) + 200)
               \<in> set (timeouts (startAuto e s))"
  using assms startAuto_fallback [of s e] by (auto simp add: startAuto_timer)

subsection \<open>How the pause sources compose\<close>

lemma resumeFromViewportPause_ctl:
  assumes "\<not> destroyed s" and "hasFill s"
  shows "\<not> viewportPaused (resumeFromViewportPause e s)"
    and "isInViewport (resumeFromViewportPause e s)"
    and "pausedByFullscreen (resumeFromViewportPause e s) = pausedByFullscreen s"
    and "paused (resumeFromViewportPause e s) =
           (if pausedByFullscreen s then paused s else if shouldAutoStart s then False else paused s)"
    and "timerRunning (resumeFromViewportPause e s) =
           (if pausedByFullscreen s then timerRunning s
            else if shouldAutoStart s then True
            else if \<not> paused s then True else timerRunning s)"
    and "initialized (resumeFromViewportPause e s) = initialized s"
    and "destroyed (resumeFromViewportPause e s) = destroyed s"
    and "hasFill (resumeFromViewportPause e s) = hasFill s"
  using assms
  by (simp_all add: resumeFromViewportPause_def validateState_def Let_def timerRunning_def
      startAuto_timer)

lemma pauseForViewport_ctl:
  assumes "\<not> destroyed s"
  shows "viewportPaused (pauseForViewport e s)"
    and "isInViewport (pauseForViewport e s) = (viewportPaused s \<and> isInViewport s)"
    and "pausedByFullscreen (pauseForViewport e s) = pausedByFullscreen s"
    and "paused (pauseForViewport e s) = paused s"
    and "timerRunning (pauseForViewport e s) = (viewportPaused s \<and> timerRunning s)"
    and "initialized (pauseForViewport e s) = initialized s"
    and "destroyed (pauseForViewport e s) = destroyed s"
    and "hasFill (pauseForViewport e s) = hasFill s"
  using assms
  by (auto simp add: pauseForViewport_def validateState_def Let_def timerRunning_def)

lemma pauseAutoplay_ctl:
  assumes "\<not> destroyed s"
  shows "viewportPaused (pauseAutoplay e s) = viewportPaused s"
    and "isInViewport (pauseAutoplay e s) = isInViewport s"
    and "pausedByFullscreen (pauseAutoplay e s) = pausedByFullscreen s"
    and "paused (pauseAutoplay e s)"
    and "timerRunning (pauseAutoplay e s) = (paused s \<and> timerRunning s)"
    and "initialized (pauseAutoplay e s) = initialized s"
    and "destroyed (pauseAutoplay e s) = destroyed s"
    and "hasFill (pauseAutoplay e s) = hasFill s"
  using assms
  by (auto simp add: pauseAutoplay_def validateState_def Let_def timerRunning_def)

lemma resumeAutoplay_ctl:
  assumes "\<not> destroyed s" and "hasFill s"
  shows "viewportPaused (resumeAutoplay e s) = viewportPaused s"
    and "isInViewport (resumeAutoplay e s) = isInViewport s"
    and "pausedByFullscreen (resumeAutoplay e s) = pausedByFullscreen s"
    and "paused (resumeAutoplay e s) = (paused s \<and> viewportPaused s)"
    and "timerRunning (resumeAutoplay e s) =
           (if paused s \<and> \<not> viewportPaused s then True else timerRunning s)"
    and "initialized (resumeAutoplay e s) = initialized s"
    and "destroyed (resumeAutoplay e s) = destroyed s"
    and "hasFill (resumeAutoplay e s) = hasFill s"
  using assms
  by (auto simp add: resumeAutoplay_def validateState_def timerRunning_def startAuto_timer)

lemma onFullscreenOpen_ctl:
  assumes "\<not> destroyed s" and "initialized s"
  shows "viewportPaused (onFullscreenOpen e s) = viewportPaused s"
    and "isInViewport (onFullscreenOpen e s) = isInViewport s"
    and "pausedByFullscreen (onFullscreenOpen e s)"
    and "paused (onFullscreenOpen e s)"
    and "timerRunning (onFullscreenOpen e s) = (paused s \<and> timerRunning s)"
    and "initialized (onFullscreenOpen e s) = initialized s"
    and "destroyed (onFullscreenOpen e s) = destroyed s"
    and "hasFill (onFullscreenOpen e s) = hasFill s"
  using assms pauseAutoplay_ctl [of "s\<lparr>pausedByFullscreen := True\<rparr>" e]
  by (simp_all add: onFullscreenOpen_def validateState_def Let_def timerRunning_def)

lemma onFullscreenClose_ctl:
  assumes "\<not> destroyed s" and "initialized s" and "hasFill s"
  shows "viewportPaused (onFullscreenClose e s) = viewportPaused s"
    and "isInViewport (onFullscreenClose e s) = isInViewport s"
    and "\<not> pausedByFullscreen (onFullscreenClose e s)"
    and "\<not> paused (onFullscreenClose e s)"
    and "timerRunning (onFullscreenClose e s) =
           (if isInViewport s then \<not> viewportPaused s else timerRunning s)"
    and "initialized (onFullscreenClose e s) = initialized s"
    and "destroyed (onFullscreenClose e s) = destroyed s"
    and "hasFill (onFullscreenClose e s) = hasFill s"
  using assms
  by (auto simp add: onFullscreenClose_def validateState_def Let_def timerRunning_def
      startAuto_timer)

lemma composed_pauseForViewport: "composed s \<Longrightarrow> composed (pauseForViewport e s)"
proof -
  assume c: "composed s"
  then have d: "\<not> destroyed s" unfolding composed_def by blast
  show ?thesis
    apply (insert c)
    unfolding composed_def anyPauseFlag_def
    by (cases "viewportPaused s"; cases "paused s"; cases "pausedByFullscreen s";
        cases "timerRunning s"; cases "shouldAutoStart s"; cases "isInViewport s";
        simp add: pauseForViewport_ctl [OF d])
qed

lemma composed_resumeFromViewportPause: "composed s \<Longrightarrow> composed (resumeFromViewportPause e s)"
proof -
  assume c: "composed s"
  then have d: "\<not> destroyed s" "hasFill s" unfolding composed_def by blast+
  show ?thesis
    apply (insert c)
    unfolding composed_def anyPauseFlag_def
    by (cases "viewportPaused s"; cases "paused s"; cases "pausedByFullscreen s";
        cases "timerRunning s"; cases "shouldAutoStart s"; cases "isInViewport s";
        simp add: resumeFromViewportPause_ctl [OF d])
qed

lemma composed_pauseAutoplay: "composed s \<Longrightarrow> composed (pauseAutoplay e s)"
proof -
  assume c: "composed s"
  then have d: "\<not> destroyed s" unfolding composed_def by blast
  show ?thesis
    apply (insert c)
    unfolding composed_def anyPauseFlag_def
    by (cases "viewportPaused s"; cases "paused s"; cases "pausedByFullscreen s";
        cases "timerRunning s"; cases "shouldAutoStart s"; cases "isInViewport s";
        simp add: pauseAutoplay_ctl [OF d])
qed

lemma composed_resumeAutoplay: "composed s \<Longrightarrow> composed (resumeAutoplay e s)"
proof -
  assume c: "composed s"
  then have d: "\<not> destroyed s" "hasFill s" unfolding composed_def by blast+
  show ?thesis
    apply (insert c)
    unfolding composed_def anyPauseFlag_def
    by (cases "viewportPaused s"; cases "paused s"; cases "pausedByFullscreen s";
        cases "timerRunning s"; cases "shouldAutoStart s"; cases "isInViewport s";
        simp add: resumeAutoplay_ctl [OF d])
qed

lemma composed_onFullscreenOpen: "composed s \<Longrightarrow> composed (onFullscreenOpen e s)"
proof -
  assume c: "composed s"
  then have d: "\<not> destroyed s" "initialized s" unfolding composed_def by blast+
  show ?thesis
    apply (insert c)
    unfolding composed_def anyPauseFlag_def
    by (cases "viewportPaused s"; cases "paused s"; cases "pausedByFullscreen s";
        cases "timerRunning s"; cases "shouldAutoStart s"; cases "isInViewport s";
        simp add: onFullscreenOpen_ctl [OF d])
qed

lemma composed_onFullscreenClose: "composed s \<Longrightarrow> composed (onFullscreenClose e s)"
proof -
  assume c: "composed s"
  then have d: "\<not> destroyed s" "initialized s" "hasFill s" unfolding composed_def by blast+
  show ?thesis
    apply (insert c)
    unfolding composed_def anyPauseFlag_def
    by (cases "viewportPaused s"; cases "paused s"; cases "pausedByFullscreen s";
        cases "timerRunning s"; cases "shouldAutoStart s"; cases "isInViewport s";
        simp add: onFullscreenClose_ctl [OF d])
qed

lemma composed_step:
  assumes "composed s" and "pauseResumeRequest ev"
  shows "composed (step e ev s)"
proof -
  from assms(2) consider "ev = PauseForViewport" | "ev = ResumeFromViewportPause"
    | "ev = PauseAutoplay" | "ev = ResumeAutoplay" | "ev = OnFullscreenOpen"
    | "ev = OnFullscreenClose"
    unfolding pauseResumeRequest_def by blast
  then show ?thesis
  proof cases
    case 1
    then show ?thesis by (simp add: composed_pauseForViewport [OF assms(1)])
  next
    case 2
    then show ?thesis by (simp add: composed_resumeFromViewportPause [OF assms(1)])
  next
    case 3
    then show ?thesis by (simp add: composed_pauseAutoplay [OF assms(1)])
  next
    case 4
    then show ?thesis by (simp add: composed_resumeAutoplay [OF assms(1)])
  next
    case 5
    then show ?thesis by (simp add: composed_onFullscreenOpen [OF assms(1)])
  next
    case 6
    then show ?thesis by (simp add: composed_onFullscreenClose [OF assms(1)])
  qed
qed

lemma composedVF_step:
  assumes "composedVF s" and "viewportOrFullscreenRequest ev"
  shows "composedVF (step e ev s)"
proof -
  have c: "composed s" and pf: "paused s = pausedByFullscreen s"
    using assms(1) by (simp_all add: composedVF_def)
  have d: "\<not> destroyed s" "hasFill s" "initialized s"
    using c unfolding composed_def by blast+
  have r: "pauseResumeRequest ev"
    using assms(2) unfolding viewportOrFullscreenRequest_def pauseResumeRequest_def by blast
  from assms(2) consider "ev = PauseForViewport" | "ev = ResumeFromViewportPause"
    | "ev = OnFullscreenOpen" | "ev = OnFullscreenClose"
    unfolding viewportOrFullscreenRequest_def by blast
  then have "paused (step e ev s) = pausedByFullscreen (step e ev s)"
  proof cases
    case 1
    with pf show ?thesis by (simp add: pauseForViewport_ctl [OF d(1)])
  next
    case 2
    with pf show ?thesis by (simp add: resumeFromViewportPause_ctl [OF d(1,2)])
  next
    case 3
    then show ?thesis by (simp add: onFullscreenOpen_ctl [OF d(1,3)])
  next
    case 4
    then show ?thesis by (simp add: onFullscreenClose_ctl [OF d(1,3,2)])
  qed
  with composed_step [OF c r, of e] show ?thesis by (simp add: composedVF_def)
qed

lemma composed_run:
  "composed s \<Longrightarrow> \<forall>x \<in> set es. pauseResumeRequest (snd x) \<Longrightarrow> composed (run es s)"
  by (induction es arbitrary: s) (simp_all add: composed_step)

lemma composedVF_run:
  "composedVF s \<Longrightarrow> \<forall>x \<in> set es. viewportOrFullscreenRequest (snd x) \<Longrightarrow> composedVF (run es s)"
  by (induction es arbitrary: s) (simp_all add: composedVF_step)

subsection \<open>Nothing scheduled\<close>

lemma ns_stopAuto: "nothingScheduled s \<Longrightarrow> nothingScheduled (stopAuto e s)"
  by (simp add: nothingScheduled_def stopAuto_def prim_defs Let_def)

lemma ns_setActive: "nothingScheduled s \<Longrightarrow> nothingScheduled (setActive i r s)"
  by (simp add: nothingScheduled_def)

lemma ns_completeProgressReset:
  "nothingScheduled s \<Longrightarrow> nothingScheduled (completeProgressReset e s)"
  using ns_stopAuto [of s e] by (simp add: nothingScheduled_def)

lemma ns_resetProgress: "nothingScheduled s \<Longrightarrow> nothingScheduled (resetProgress s)"
  by (simp add: nothingScheduled_def resetProgress_def validateState_def)

lemma ns_upd [simp]:
  "nothingScheduled (s\<lparr>paused := b\<rparr>) = nothingScheduled s"
  "nothingScheduled (s\<lparr>viewportPaused := b\<rparr>) = nothingScheduled s"
  "nothingScheduled (s\<lparr>isInViewport := b\<rparr>) = nothingScheduled s"
  "nothingScheduled (s\<lparr>shouldAutoStart := b\<rparr>) = nothingScheduled s"
  "nothingScheduled (s\<lparr>pausedByFullscreen := b\<rparr>) = nothingScheduled s"
  "nothingScheduled (s\<lparr>initialized := b\<rparr>) = nothingScheduled s"
  "nothingScheduled (s\<lparr>destroyed := b\<rparr>) = nothingScheduled s"
  "nothingScheduled (s\<lparr>pauseElapsed := x\<rparr>) = nothingScheduled s"
  "nothingScheduled (s\<lparr>fillWidth := w\<rparr>) = nothingScheduled s"
  "nothingScheduled (s\<lparr>fillTransition := tr\<rparr>) = nothingScheduled s"
  by (simp_all add: nothingScheduled_def)

lemma held_initialize: "heldByOverlay s \<Longrightarrow> heldByOverlay (initialize e s)"
  by (auto simp add: heldByOverlay_def initialize_def validateState_def Let_def
      intro!: ns_setActive ns_completeProgressReset)

lemma held_pauseForViewport: "heldByOverlay s \<Longrightarrow> heldByOverlay (pauseForViewport e s)"
  by (auto simp add: heldByOverlay_def pauseForViewport_def validateState_def Let_def
      nothingScheduled_def [of s] intro!: ns_stopAuto)

lemma held_resumeFromViewportPause:
  "heldByOverlay s \<Longrightarrow> heldByOverlay (resumeFromViewportPause e s)"
  by (auto simp add: heldByOverlay_def resumeFromViewportPause_def validateState_def Let_def)

lemma held_pauseAutoplay: "heldByOverlay s \<Longrightarrow> heldByOverlay (pauseAutoplay e s)"
  by (auto simp add: heldByOverlay_def pauseAutoplay_def validateState_def)

lemma held_onFullscreenOpen: "heldByOverlay s \<Longrightarrow> heldByOverlay (onFullscreenOpen e s)"
  by (auto simp add: heldByOverlay_def onFullscreenOpen_def pauseAutoplay_def
      validateState_def Let_def)

lemma held_restartOrReset:
  "nothingScheduled s \<Longrightarrow> paused s \<Longrightarrow> pausedByFullscreen s \<Longrightarrow>
     heldByOverlay (restartOrReset e s)"
  by (simp add: heldByOverlay_def restartOrReset_def resetProgress_def validateState_def)

lemma held_nav:
  assumes "heldByOverlay s"
  shows "heldByOverlay (nextBtnClick e s)" and "heldByOverlay (prevBtnClick e s)"
    and "heldByOverlay (dotClick idx e s)" and "heldByOverlay (viewportClick b e s)"
proof -
  show "heldByOverlay (nextBtnClick e s)"
    using assms
    by (auto simp add: heldByOverlay_def [of s] nextBtnClick_def nextSlide_def
        validateState_def Let_def
        intro!: held_restartOrReset ns_setActive ns_completeProgressReset)
  show "heldByOverlay (prevBtnClick e s)"
    using assms
    by (auto simp add: heldByOverlay_def [of s] prevBtnClick_def prevSlide_def
        validateState_def Let_def
        intro!: held_restartOrReset ns_setActive ns_completeProgressReset)
  show "heldByOverlay (dotClick idx e s)"
    using assms
    by (auto simp add: heldByOverlay_def [of s] dotClick_def validateState_def
        intro!: held_restartOrReset ns_setActive ns_completeProgressReset)
  show "heldByOverlay (viewportClick b e s)"
    using assms
    by (auto simp add: heldByOverlay_def [of s] viewportClick_def nextSlide_def prevSlide_def
        validateState_def Let_def
        intro!: held_restartOrReset ns_setActive ns_completeProgressReset)
qed

lemma held_cleanup: "heldByOverlay s \<Longrightarrow> heldByOverlay (cleanup e s)"
  by (auto simp add: heldByOverlay_def cleanup_def Let_def nothingScheduled_def)

lemma held_fire:
  assumes "heldByOverlay s"
  shows "fireTimeout h e s = s" and "fireRaf r e s = s" and "fireTransitionEnd c w e s = s"
  using assms
  by (simp_all add: heldByOverlay_def nothingScheduled_def fireTimeout_def fireRaf_def
      fireTransitionEnd_def)

lemma held_step: "heldByOverlay s \<Longrightarrow> overlayStaysOpen ev \<Longrightarrow> heldByOverlay (step e ev s)"
  by (cases ev)
    (simp_all add: overlayStaysOpen_def held_initialize held_pauseForViewport
      held_resumeFromViewportPause held_pauseAutoplay held_onFullscreenOpen held_nav
      held_cleanup held_fire)

lemma held_run:
  "heldByOverlay s \<Longrightarrow> \<forall>x \<in> set es. overlayStaysOpen (snd x) \<Longrightarrow> heldByOverlay (run es s)"
  by (induction es arbitrary: s) (simp_all add: held_step)

lemma openModal_fs: "fs (snd (openModal imgs i owner e (p\<lparr>carousels := cs\<rparr>))) = fs (snd (openModal imgs i owner e p))"
  by (simp add: openModal_def Let_def split: sum.splits)

lemma openModal_owner:
  "carousels p k = Some c \<Longrightarrow>
     carousels (snd (openModal imgs i (Some k) e p)) = (carousels p)(k \<mapsto> onFullscreenOpen e c)"
  by (simp add: openModal_def Let_def split: sum.splits)

lemma openModal_ok:
  "0 \<le> i \<Longrightarrow> i < int (length imgs) \<Longrightarrow> fst (openModal imgs i owner e p) = None"
  by (simp add: openModal_def Let_def showCurrentImage_def)

lemma openModal_vo: "vo (snd (openModal imgs i owner e p)) = vo p"
  by (simp add: openModal_def Let_def split: sum.splits)

lemma openModal_originalCarousel:
  "originalCarousel (fs (snd (openModal imgs i owner e p))) = owner"
  by (simp add: openModal_def Let_def showCurrentImage_def split: sum.splits)

lemma closeModal_owner:
  "originalCarousel (fs p) = Some k \<Longrightarrow> carousels p k = Some c \<Longrightarrow>
     carousels (closeModalTimeout e (closeModal p)) k = Some (onFullscreenClose e c)"
  by (simp add: closeModalTimeout_def closeModal_def Let_def)


subsection \<open>An instance no observer knows\<close>

text \<open>
  Only \<^verbatim>\<open>initialize\<close> sets \<open>initialized\<close> and only \<^verbatim>\<open>pauseForViewport\<close> sets
  \<open>viewportPaused\<close>; every other operation, handler and callback leaves both as they are.
  On a page without an observer no intersection entry reaches an instance, so an instance
  that nobody but the observer would initialize stays uninitialized and unpaused.
\<close>

lemma pauseAutoplay_seen [simp]:
  "initialized (pauseAutoplay e s) = initialized s"
  "viewportPaused (pauseAutoplay e s) = viewportPaused s"
  by (simp_all add: pauseAutoplay_def validateState_def Let_def)

lemma resumeAutoplay_seen [simp]:
  "initialized (resumeAutoplay e s) = initialized s"
  "viewportPaused (resumeAutoplay e s) = viewportPaused s"
  by (simp_all add: resumeAutoplay_def validateState_def)

lemma onFullscreenOpen_seen [simp]:
  "initialized (onFullscreenOpen e s) = initialized s"
  "viewportPaused (onFullscreenOpen e s) = viewportPaused s"
  by (simp_all add: onFullscreenOpen_def validateState_def Let_def)

lemma onFullscreenClose_seen [simp]:
  "initialized (onFullscreenClose e s) = initialized s"
  "viewportPaused (onFullscreenClose e s) = viewportPaused s"
  by (simp_all add: onFullscreenClose_def validateState_def Let_def)

lemma restartOrReset_seen [simp]:
  "initialized (restartOrReset e s) = initialized s"
  "viewportPaused (restartOrReset e s) = viewportPaused s"
  by (simp_all add: restartOrReset_def resetProgress_def validateState_def)

lemma nextSlide_seen [simp]:
  "initialized (nextSlide e s) = initialized s"
  "viewportPaused (nextSlide e s) = viewportPaused s"
  "initialized (prevSlide e s) = initialized s"
  "viewportPaused (prevSlide e s) = viewportPaused s"
  by (simp_all add: nextSlide_def prevSlide_def validateState_def Let_def)

lemma nav_seen [simp]:
  "initialized (nextBtnClick e s) = initialized s"
  "viewportPaused (nextBtnClick e s) = viewportPaused s"
  "initialized (prevBtnClick e s) = initialized s"
  "viewportPaused (prevBtnClick e s) = viewportPaused s"
  "initialized (dotClick idx e s) = initialized s"
  "viewportPaused (dotClick idx e s) = viewportPaused s"
  "initialized (viewportClick b e s) = initialized s"
  "viewportPaused (viewportClick b e s) = viewportPaused s"
  by (simp_all add: nextBtnClick_def prevBtnClick_def dotClick_def viewportClick_def
      validateState_def)

lemma advance_seen [simp]:
  "initialized (advance c e s) = initialized s"
  "viewportPaused (advance c e s) = viewportPaused s"
  by (simp_all add: advance_def Let_def)

lemma callbacks_seen [simp]:
  "initialized (fallbackCallback c e s) = initialized s"
  "viewportPaused (fallbackCallback c e s) = viewportPaused s"
  "initialized (initTimerCallback h e s) = initialized s"
  "viewportPaused (initTimerCallback h e s) = viewportPaused s"
  "initialized (rafCallback e s) = initialized s"
  "viewportPaused (rafCallback e s) = viewportPaused s"
  by (simp_all add: fallbackCallback_def initTimerCallback_def rafCallback_def Let_def
      split: option.splits)

lemma fire_seen [simp]:
  "initialized (fireTimeout h e s) = initialized s"
  "viewportPaused (fireTimeout h e s) = viewportPaused s"
  "initialized (fireRaf r e s) = initialized s"
  "viewportPaused (fireRaf r e s) = viewportPaused s"
  "initialized (fireTransitionEnd c w e s) = initialized s"
  "viewportPaused (fireTransitionEnd c w e s) = viewportPaused s"
  by (simp_all add: fireTimeout_def fireRaf_def fireTransitionEnd_def
      progressEndHandlerCallback_def prim_defs split: option.splits task.splits)

lemma unseen_step:
  assumes "\<not> initialized s" and "\<not> viewportPaused s" and "\<not> observerCall ev"
  shows "\<not> initialized (step e ev s)" and "\<not> viewportPaused (step e ev s)"
  using assms by (cases ev; simp add: observerCall_def cleanup_def Let_def)+

lemma unobserved_pageStep:
  assumes "unobserved k p" and "withoutObserverCalls pe"
  shows "unobserved k (pageStep e pe p)"
proof (cases pe)
  case (Entry j b)
  with assms(1) show ?thesis
    by (simp add: unobserved_def onIntersection_no_observer)
next
  case (Instance j ev)
  with assms(2) have n: "\<not> observerCall ev" by simp
  from assms(1) obtain c where c: "carousels p k = Some c" "\<not> initialized c"
      "\<not> viewportPaused c" and o: "\<not> observer (vo p)"
    by (auto simp add: unobserved_def)
  show ?thesis
  proof (cases "carousels p j")
    case None
    with Instance assms(1) show ?thesis by (simp add: carouselEvent_def)
  next
    case (Some d)
    show ?thesis
    proof (cases "j = k")
      case True
      with Some c have "d = c" by simp
      with Instance Some True o unseen_step [OF c(2) c(3) n, of e] show ?thesis
        by (simp add: carouselEvent_def unobserved_def)
    next
      case False
      with Instance Some assms(1) show ?thesis
        by (simp add: carouselEvent_def unobserved_def)
    qed
  qed
qed

lemma unobserved_runPage:
  "unobserved k p \<Longrightarrow> \<forall>x \<in> set es. withoutObserverCalls (snd x) \<Longrightarrow>
     unobserved k (runPage es p)"
  by (induction es arbitrary: p) (simp_all add: unobserved_pageStep)

lemma nextBtnClick_starts:
  "0 < n \<Longrightarrow> timerRunning (nextBtnClick e (newCarousel n True))"
proof -
  let ?s = "nextSlide e (newCarousel n True)"
  have a: "\<not> destroyed ?s" "\<not> viewportPaused ?s" "\<not> paused ?s" "hasFill ?s"
    by (simp_all add: nextSlide_def validateState_def Let_def newCarousel_def)
  have "nextBtnClick e (newCarousel n True) = startAuto e ?s"
    using a by (simp add: nextBtnClick_def restartOrReset_def validateState_def newCarousel_def)
  then show ?thesis
    using a by (simp add: timerRunning_def startAuto_timer)
qed

section \<open>What the handle variable and a cycle's own callbacks obey\<close>

text \<open>
  The variable \<open>timer\<close> of a playing instance follows the pause flags: under viewport and
  fullscreen requests it holds a handle iff no flag is set, and under requests of all three
  sources it holds one whenever no flag is set and only while neither \<open>viewportPaused\<close>
  nor \<open>paused\<close> is set. This is a statement about the variable, not about every timeout
  the browser still has armed.
\<close>

lemma handle_iff_no_pause_flag:
  assumes "initialized s" and "\<not> destroyed s" and "hasFill s" and "isInViewport s"
    and "timerRunning s" and "\<not> anyPauseFlag s"
  shows "((\<forall>x \<in> set es. viewportOrFullscreenRequest (snd x)) \<longrightarrow>
          timerRunning (run es s) = (\<not> anyPauseFlag (run es s)))
    \<and> ((\<forall>x \<in> set es. pauseResumeRequest (snd x)) \<longrightarrow>
          (\<not> anyPauseFlag (run es s) \<longrightarrow> timerRunning (run es s))
          \<and> (timerRunning (run es s) \<longrightarrow>
                \<not> viewportPaused (run es s) \<and> \<not> paused (run es s)))
    \<and> \<not> timerRunning (pauseForViewport e s)
    \<and> \<not> timerRunning (pauseAutoplay e s)
    \<and> \<not> timerRunning (onFullscreenOpen e s)
    \<and> \<not> timerRunning (resumeFromViewportPause e2 (onFullscreenOpen e1 (pauseForViewport e s)))
    \<and> \<not> timerRunning (onFullscreenClose e2 (pauseForViewport e1 (onFullscreenOpen e s)))
    \<and> \<not> timerRunning (resumeAutoplay e2 (pauseForViewport e1 (pauseAutoplay e s)))"
proof -
  have f: "\<not> viewportPaused s" "\<not> paused s" "\<not> pausedByFullscreen s"
    using assms(6) by (simp_all add: anyPauseFlag_def)
  have c: "composed s"
    unfolding composed_def using assms f by blast
  have cv: "composedVF s"
    unfolding composedVF_def using c f by blast
  have a: "(\<forall>x \<in> set es. viewportOrFullscreenRequest (snd x)) \<longrightarrow>
          timerRunning (run es s) = (\<not> anyPauseFlag (run es s))"
  proof
    assume "\<forall>x \<in> set es. viewportOrFullscreenRequest (snd x)"
    then have "composedVF (run es s)" by (rule composedVF_run [OF cv])
    then show "timerRunning (run es s) = (\<not> anyPauseFlag (run es s))"
      unfolding composedVF_def composed_def anyPauseFlag_def by blast
  qed
  have b: "(\<forall>x \<in> set es. pauseResumeRequest (snd x)) \<longrightarrow>
          (\<not> anyPauseFlag (run es s) \<longrightarrow> timerRunning (run es s))
          \<and> (timerRunning (run es s) \<longrightarrow>
                \<not> viewportPaused (run es s) \<and> \<not> paused (run es s))"
  proof
    assume "\<forall>x \<in> set es. pauseResumeRequest (snd x)"
    then have "composed (run es s)" by (rule composed_run [OF c])
    then show "(\<not> anyPauseFlag (run es s) \<longrightarrow> timerRunning (run es s))
          \<and> (timerRunning (run es s) \<longrightarrow>
                \<not> viewportPaused (run es s) \<and> \<not> paused (run es s))"
      unfolding composed_def by blast
  qed
  note d = assms(2) assms(3) assms(1)
  have p1: "\<not> timerRunning (pauseForViewport e s)"
    using f by (simp add: pauseForViewport_ctl [OF d(1)])
  have p2: "\<not> timerRunning (pauseAutoplay e s)"
    using f by (simp add: pauseAutoplay_ctl [OF d(1)])
  have p3: "\<not> timerRunning (onFullscreenOpen e s)"
    using f by (simp add: onFullscreenOpen_ctl [OF d(1) d(3)])
  let ?v = "pauseForViewport e s"
  have v: "\<not> destroyed ?v" "initialized ?v" "hasFill ?v" "\<not> timerRunning ?v"
    using f d by (simp_all add: pauseForViewport_ctl [OF d(1)])
  let ?vf = "onFullscreenOpen e1 ?v"
  have vf: "\<not> destroyed ?vf" "hasFill ?vf" "pausedByFullscreen ?vf" "\<not> timerRunning ?vf"
    using v by (simp_all add: onFullscreenOpen_ctl [OF v(1) v(2)])
  have q1: "\<not> timerRunning (resumeFromViewportPause e2 ?vf)"
    using vf by (simp add: resumeFromViewportPause_ctl [OF vf(1) vf(2)])
  let ?o = "onFullscreenOpen e s"
  have o: "\<not> destroyed ?o" "initialized ?o" "hasFill ?o"
    using d by (simp_all add: onFullscreenOpen_ctl [OF d(1) d(3)])
  let ?ov = "pauseForViewport e1 ?o"
  have ov: "\<not> destroyed ?ov" "initialized ?ov" "hasFill ?ov" "\<not> isInViewport ?ov"
    "\<not> timerRunning ?ov"
    using o p3 assms(4) f by (simp_all add: pauseForViewport_ctl [OF o(1)] onFullscreenOpen_ctl [OF d(1) d(3)])
  have q2: "\<not> timerRunning (onFullscreenClose e2 ?ov)"
    using ov by (simp add: onFullscreenClose_ctl [OF ov(1) ov(2) ov(3)])
  let ?m = "pauseAutoplay e s"
  have m: "\<not> destroyed ?m" "hasFill ?m"
    using d by (simp_all add: pauseAutoplay_ctl [OF d(1)])
  let ?mv = "pauseForViewport e1 ?m"
  have mv: "\<not> destroyed ?mv" "hasFill ?mv" "viewportPaused ?mv" "\<not> timerRunning ?mv"
    using m p2 by (simp_all add: pauseForViewport_ctl [OF m(1)])
  have q3: "\<not> timerRunning (resumeAutoplay e2 ?mv)"
    using mv by (simp add: resumeAutoplay_ctl [OF mv(1) mv(2)])
  show ?thesis
    by (intro conjI a b p1 p2 p3 q1 q2 q3)
qed

text \<open>
  The manual resume does not look at \<open>pausedByFullscreen\<close>: called while the overlay is
  open, it restarts the timer.
\<close>

lemma manual_resume_under_fullscreen:
  "initialized playingAt100 \<and> \<not> destroyed playingAt100 \<and> timerRunning playingAt100
   \<and> \<not> anyPauseFlag playingAt100
   \<and> \<not> timerRunning (run [(envAt 2100, OnFullscreenOpen)] playingAt100)
   \<and> timerRunning (run [(envAt 2100, OnFullscreenOpen), (envAt 3000, ResumeAutoplay)] playingAt100)
   \<and> pausedByFullscreen
        (run [(envAt 2100, OnFullscreenOpen), (envAt 3000, ResumeAutoplay)] playingAt100)
   \<and> anyPauseFlag
        (run [(envAt 2100, OnFullscreenOpen), (envAt 3000, ResumeAutoplay)] playingAt100)"
proof -
  have a: "initialized playingAt100" "\<not> destroyed playingAt100" "timerRunning playingAt100"
    "\<not> anyPauseFlag playingAt100"
    by code_simp+
  have b: "\<not> timerRunning (run [(envAt 2100, OnFullscreenOpen)] playingAt100)"
    by code_simp
  have c: "timerRunning (run [(envAt 2100, OnFullscreenOpen), (envAt 3000, ResumeAutoplay)] playingAt100)"
    by code_simp
  have d: "pausedByFullscreen
        (run [(envAt 2100, OnFullscreenOpen), (envAt 3000, ResumeAutoplay)] playingAt100)"
    by code_simp
  then have e: "anyPauseFlag
        (run [(envAt 2100, OnFullscreenOpen), (envAt 3000, ResumeAutoplay)] playingAt100)"
    by (simp add: anyPauseFlag_def)
  show ?thesis
    by (intro conjI a b c d e)
qed

text \<open>
  The two callbacks of one cycle advance the slide once between them, in either order: the
  first clears the other, and the cycle's \<^verbatim>\<open>advanced\<close> flag stops a second run of
  \<^verbatim>\<open>advance\<close>.
\<close>

lemma own_callbacks_advance_once:
  assumes "s = run es (newCarousel n True)" and "1 \<le> n"
    and "\<not> destroyed s" and "\<not> viewportPaused s" and "\<not> paused s"
    and "s' = startAuto e s" and "c = Suc (nextId s)" and "t = Suc (Suc (Suc (nextId s)))"
    and "R = max 16 (intervalMs - pauseElapsed s)"
  shows "fillTransition s' = Linear R
    \<and> map_of (timeouts s') t = Some (Fallback c, R + 200)
    \<and> c \<in> set (listeners s')
    \<and> index (fireTransitionEnd c True e1 s') = (index s + 1) mod int n
    \<and> advancedCycles (fireTransitionEnd c True e1 s') = c # advancedCycles s
    \<and> fireTimeout t e2 (fireTransitionEnd c True e1 s') = fireTransitionEnd c True e1 s'
    \<and> index (fallbackCallback c e2 (fireTransitionEnd c True e1 s')) = (index s + 1) mod int n
    \<and> index (fireTimeout t e1 s') = (index s + 1) mod int n
    \<and> advancedCycles (fireTimeout t e1 s') = c # advancedCycles s
    \<and> fireTransitionEnd c True e2 (fireTimeout t e1 s') = fireTimeout t e1 s'
    \<and> progressEndHandlerCallback c True e2 (fireTimeout t e1 s') = fireTimeout t e1 s'
    \<and> advance c e2 (advance c e1 s') = advance c e1 s'"
proof -
  have hf: "hasFill s" and ns: "nslides s = n"
    using assms(1) by (simp_all add: run_hasFill run_nslides newCarousel_def)
  have fresh: "handlesFresh s"
    using assms(1) hf_run [OF hf_new] by simp
  have rng: "inRange s"
    using assms(1,2) ir_run [OF ir_new] by simp
  have wrap: "(index s + 1 + int n) smod int n = (index s + 1) mod int n"
    using rng ns wrap_eq [of n "index s + 1"] by (simp add: inRange_def)
  have cnew: "c \<notin> set (advancedCycles s)"
    using fresh assms(7) by (auto simp add: handlesFresh_def)
  have tnew: "\<forall>x \<in> set (timeouts (stopAuto e s)). fst x \<noteq> t"
    using fresh assms(8) stopAuto_timeouts_subset [of _ e s] by (fastforce simp add: handlesFresh_def)
  have act: "\<not> destroyed s'" "\<not> viewportPaused s'" "\<not> paused s'" "hasFill s'"
    "index s' = index s" "nslides s' = n" "advancedCycles s' = advancedCycles s"
    using assms(3-6) hf ns by simp_all
  have to: "timeouts s' = timeouts (stopAuto e s) @ [(t, Fallback c, R + 200)]"
    and li: "listeners s' = listeners (stopAuto e s) @ [c]"
    and peh: "progressEndHandler s' = Some c"
    and tm: "timer s' = Some t"
    and nid: "nextId s' = t"
    using assms(3-9) hf by (simp_all add: startAuto_lists startAuto_timer startAuto_nextId)
  have a1: "fillTransition s' = Linear R"
    using assms(3-6,9) hf by (simp add: startAuto_fill)
  have a2: "map_of (timeouts s') t = Some (Fallback c, R + 200)"
    unfolding to by (rule map_of_fresh_append [OF tnew])
  have a3: "c \<in> set (listeners s')"
    using li by simp
  \<comment> \<open>the transition ends first\<close>
  let ?u = "removeEventListener c s'"
  let ?sA = "fireTransitionEnd c True e1 s'"
  have sA: "?sA = advance c e1 ?u"
    using a3 by (simp add: fireTransitionEnd_def progressEndHandlerCallback_def)
  have u: "c \<notin> set (advancedCycles ?u)" "\<not> viewportPaused ?u" "\<not> destroyed ?u" "\<not> paused ?u"
    "hasFill ?u" "timer ?u = Some t" "index ?u = index s" "nslides ?u = n"
    "advancedCycles ?u = advancedCycles s" "nextId ?u = t" "timeouts ?u = timeouts s'"
    using act cnew tm nid by (simp_all add: removeEventListener_def)
  have b1: "index ?sA = (index s + 1) mod int n"
    using u wrap by (simp add: sA advance_index)
  have b2: "advancedCycles ?sA = c # advancedCycles s"
    using advance_effect(1) [OF u(1-5), of e1] u(9) by (simp add: sA)
  have "timeouts ?sA = filter (\<lambda>x. fst x \<noteq> t) (timeouts ?u)
      @ [(Suc (Suc (Suc t)), Fallback (Suc t), intervalMs + 200)]"
    using advance_effect(2) [OF u(1-5), of e1] u(6,10) by (simp add: sA)
  then have "map_of (timeouts ?sA) t = None"
    by (simp add: map_of_filtered del: map_of_append)
  then have b3: "fireTimeout t e2 ?sA = ?sA"
    by (simp add: fireTimeout_def)
  have b4: "index (fallbackCallback c e2 ?sA) = (index s + 1) mod int n"
    using b1 b2 by (simp add: fallbackCallback_fields)
  \<comment> \<open>the fallback fires first\<close>
  let ?v = "clearTimeout t s'"
  let ?sB = "fireTimeout t e1 s'"
  have sB: "?sB = fallbackCallback c e1 ?v"
    using a2 by (simp add: fireTimeout_def)
  have v: "c \<notin> set (advancedCycles ?v)" "\<not> viewportPaused ?v" "\<not> destroyed ?v" "\<not> paused ?v"
    "hasFill ?v" "progressEndHandler ?v = Some c" "index ?v = index s" "nslides ?v = n"
    "advancedCycles ?v = advancedCycles s" "nextId ?v = t"
    using act cnew peh nid by (simp_all add: clearTimeout_def)
  have c1: "index ?sB = (index s + 1) mod int n"
    using v wrap by (simp add: sB fallbackCallback_fields advance_index)
  have c2: "advancedCycles ?sB = c # advancedCycles s"
    using advance_effect(1) [OF v(1-5), of e1] v by (simp add: sB fallbackCallback_fields)
  have ct: "c \<noteq> Suc t" using assms(7,8) by simp
  have "listeners ?sB = removeAll c (listeners ?v) @ [Suc t]"
    using advance_effect(3) [OF v(1-5), of e1] v by (simp add: sB fallbackCallback_fields)
  then have "c \<notin> set (listeners ?sB)"
    using ct by simp
  then have c3: "fireTransitionEnd c True e2 ?sB = ?sB"
    by (simp add: fireTransitionEnd_def)
  have c4: "progressEndHandlerCallback c True e2 ?sB = ?sB"
    using c2 by (simp add: progressEndHandlerCallback_def advance_guard)
  \<comment> \<open>the guard\<close>
  have s'adv: "c \<notin> set (advancedCycles s')" using act cnew by simp
  have "advancedCycles (advance c e1 s') = c # advancedCycles s'"
    using advance_effect(1) [OF s'adv act(2) act(1) act(3) act(4), of e1] .
  then have d: "advance c e2 (advance c e1 s') = advance c e1 s'"
    by (simp add: advance_guard)
  from a1 a2 a3 b1 b2 b3 b4 c1 c2 c3 c4 d show ?thesis by blast
qed

section \<open>The claims\<close>

text \<open>
  C1 does not hold of the code. The instance \<open>afterSupersededCycle\<close> is initialized, not
  destroyed, in the viewport, has no pause flag set and its timer runs; but the fallback
  timeout 7 of an earlier cycle is still armed, because the callback that started that cycle
  went on to set \<open>timer\<close> to null (script.js 2156-2157) and the next click's
  \<^verbatim>\<open>stopAuto\<close> had no handle to clear. A viewport exit sets \<open>viewportPaused\<close> and
  clears the current cycle, so that \<open>timer\<close> is null, yet timeout 7 stays armed while the
  flag is set. The viewport's resume restarts a cycle with 4400 ms remaining, and 3500 ms
  later timeout 7 fires and advances the slide.
\<close>

theorem viewport_pause_leaves_fallback_armed:
  "initialized afterSupersededCycle
   \<and> \<not> destroyed afterSupersededCycle
   \<and> isInViewport afterSupersededCycle
   \<and> \<not> viewportPaused afterSupersededCycle
   \<and> \<not> paused afterSupersededCycle
   \<and> \<not> pausedByFullscreen afterSupersededCycle
   \<and> timerRunning afterSupersededCycle
   \<and> timer (run [(envAt 6000, PauseForViewport)] afterSupersededCycle) = None
   \<and> timeouts (run [(envAt 6000, PauseForViewport)] afterSupersededCycle)
       = [(7, Fallback 5, 5200)]
   \<and> viewportPaused (run [(envAt 6000, PauseForViewport)] afterSupersededCycle)
   \<and> fillTransition (run [(envAt 6000, PauseForViewport), (envAt 7000, ResumeFromViewportPause)]
        afterSupersededCycle) = Linear 4400
   \<and> index (run [(envAt 6000, PauseForViewport), (envAt 7000, ResumeFromViewportPause)]
        afterSupersededCycle) = 2
   \<and> index (run [(envAt 6000, PauseForViewport), (envAt 7000, ResumeFromViewportPause),
        (envAt 10500, FireTimeout 7)] afterSupersededCycle) = 3"
proof -
  have a: "initialized afterSupersededCycle" by code_simp
  have a1: "\<not> destroyed afterSupersededCycle" by code_simp
  have a0: "isInViewport afterSupersededCycle" by code_simp
  have a2: "\<not> viewportPaused afterSupersededCycle" by code_simp
  have a3: "\<not> paused afterSupersededCycle" by code_simp
  have a4: "\<not> pausedByFullscreen afterSupersededCycle" by code_simp
  have b1: "timer (run [(envAt 6000, PauseForViewport)] afterSupersededCycle) = None"
    by code_simp
  have b: "timerRunning afterSupersededCycle" by code_simp
  have c: "timeouts (run [(envAt 6000, PauseForViewport)] afterSupersededCycle)
       = [(7, Fallback 5, 5200)]"
    by code_simp
  have d: "viewportPaused (run [(envAt 6000, PauseForViewport)] afterSupersededCycle)"
    by code_simp
  have f: "fillTransition (run [(envAt 6000, PauseForViewport),
        (envAt 7000, ResumeFromViewportPause)] afterSupersededCycle) = Linear 4400"
    by code_simp
  have g: "index (run [(envAt 6000, PauseForViewport), (envAt 7000, ResumeFromViewportPause)]
        afterSupersededCycle) = 2"
    by code_simp
  have h: "index (run [(envAt 6000, PauseForViewport), (envAt 7000, ResumeFromViewportPause),
        (envAt 10500, FireTimeout 7)] afterSupersededCycle) = 3"
    by code_simp
  show ?thesis
    by (intro conjI a a1 a0 a2 a3 a4 b b1 c d f g h)
qed

text \<open>
  C2 does not hold of the code. In \<open>afterSupersededCycle\<close> the cycle 8 was started at
  5400 ms with R = 5000 ms, while the fallback timeout 7 of the superseded cycle 5, armed at
  5300 ms for 5200 ms, is still scheduled (its handle was lost at script.js 2156-2157). The
  transition of cycle 8 ends at 10400 ms, R after the start, and advances the index from 2
  to 3. Timeout 7 fires at 10500 ms, inside [R, R + 200] of the start; the one-shot guard is
  kept per cycle and that of cycle 5 is unset, so the slide advances again, from 3 to 0: two
  automatic advances in the window of one cycle.
\<close>

theorem superseded_fallback_advances_again:
  "index afterSupersededCycle = 2
   \<and> timer afterSupersededCycle = Some 10
   \<and> progressEndHandler afterSupersededCycle = Some 8
   \<and> advancedCycles afterSupersededCycle = [2]
   \<and> fillTransition afterSupersededCycle = Linear 5000
   \<and> timeouts afterSupersededCycle = [(7, Fallback 5, 5200), (10, Fallback 8, 5200)]
   \<and> index (run [(envAt 10400, FireTransitionEnd 8 True)] afterSupersededCycle) = 3
   \<and> index (run [(envAt 10400, FireTransitionEnd 8 True), (envAt 10500, FireTimeout 7)]
        afterSupersededCycle) = 0
   \<and> advancedCycles (run [(envAt 10400, FireTransitionEnd 8 True), (envAt 10500, FireTimeout 7)]
        afterSupersededCycle) = [5, 8, 2]"
proof -
  have a: "index afterSupersededCycle = 2" by code_simp
  have b: "timer afterSupersededCycle = Some 10" by code_simp
  have c: "progressEndHandler afterSupersededCycle = Some 8" by code_simp
  have c1: "advancedCycles afterSupersededCycle = [2]" by code_simp
  have d: "fillTransition afterSupersededCycle = Linear 5000" by code_simp
  have f: "timeouts afterSupersededCycle = [(7, Fallback 5, 5200), (10, Fallback 8, 5200)]"
    by code_simp
  have g: "index (run [(envAt 10400, FireTransitionEnd 8 True)] afterSupersededCycle) = 3"
    by code_simp
  have h: "index (run [(envAt 10400, FireTransitionEnd 8 True), (envAt 10500, FireTimeout 7)]
        afterSupersededCycle) = 0"
    by code_simp
  have i: "advancedCycles (run [(envAt 10400, FireTransitionEnd 8 True),
        (envAt 10500, FireTimeout 7)] afterSupersededCycle) = [5, 8, 2]"
    by code_simp
  show ?thesis
    by (intro conjI a b c c1 d f g h i)
qed

text \<open>
  C3. Opening the overlay on an instance that was never initialized only sets the
  instance's own flags \<open>pausedByFullscreen\<close>, \<open>paused\<close> and \<open>shouldAutoStart\<close>; the
  modal keeps nothing but its image list, its index and the reference to the owner. Whatever
  happens next short of closing the overlay (the first viewport entry with its
  \<^verbatim>\<open>initialize\<close>, later exits and entries, navigation, teardown, a callback of the
  browser), no timer runs and nothing is scheduled. Once the instance has become visible,
  closing the overlay starts the timer.
\<close>

theorem fullscreen_before_visibility:
  assumes "\<forall>x \<in> set es. overlayStaysOpen (snd x)"
    and "s1 = onFullscreenOpen e0 (newCarousel n hf)"
    and "carousels p k = Some (newCarousel n hf)"
  shows "s1 = (newCarousel n hf)\<lparr>paused := True, pausedByFullscreen := True,
                                   shouldAutoStart := True\<rparr>
    \<and> carousels (snd (openModal imgs i (Some k) e0 p)) k = Some s1
    \<and> fs (snd (openModal imgs i (Some k) e0 p))
        = fs (snd (openModal imgs i (Some k) e0 (p\<lparr>carousels := cs\<rparr>)))
    \<and> (0 \<le> i \<and> i < int (length imgs) \<longrightarrow> fst (openModal imgs i (Some k) e0 p) = None)
    \<and> (observer (vo p) \<and> \<not> isDestroying (vo p) \<and> observedCarousels (vo p) k = Some False \<longrightarrow>
          carousels (onIntersection k True e1 (snd (openModal imgs i (Some k) e0 p))) k
            = Some (initialize e1 s1))
    \<and> carousels (closeModalTimeout e2 (closeModal (snd (openModal imgs i (Some k) e0 p)))) k
          = Some (onFullscreenClose e2 s1)
    \<and> \<not> timerRunning (run es s1)
    \<and> nothingScheduled (run es s1)
    \<and> initialized (initialize e1 s1)
    \<and> \<not> timerRunning (initialize e1 s1)
    \<and> nothingScheduled (initialize e1 s1)
    \<and> pausedByFullscreen (initialize e1 s1) \<and> shouldAutoStart (initialize e1 s1)
    \<and> (hf \<longrightarrow> timerRunning (onFullscreenClose e2 (initialize e1 s1)))"
proof -
  have a: "s1 = (newCarousel n hf)\<lparr>paused := True, pausedByFullscreen := True,
                                   shouldAutoStart := True\<rparr>"
    by (simp add: assms(2) onFullscreenOpen_def validateState_def Let_def newCarousel_def)
  have h: "heldByOverlay s1"
    by (simp add: a heldByOverlay_def nothingScheduled_def newCarousel_def)
  have r: "heldByOverlay (run es s1)"
    using h assms(1) by (rule held_run)
  have i1: "Initialize = snd (e1, Initialize)" by simp
  have hi: "heldByOverlay (initialize e1 s1)"
    using h by (rule held_initialize)
  have b: "carousels (snd (openModal imgs i (Some k) e0 p)) k = Some s1"
    using openModal_owner [OF assms(3), of imgs i e0] by (simp add: assms(2))
  have c: "fs (snd (openModal imgs i (Some k) e0 p))
        = fs (snd (openModal imgs i (Some k) e0 (p\<lparr>carousels := cs\<rparr>)))"
    by (simp add: openModal_fs)
  have d: "0 \<le> i \<and> i < int (length imgs) \<longrightarrow> fst (openModal imgs i (Some k) e0 p) = None"
    by (simp add: openModal_ok)
  have v: "observer (vo p) \<and> \<not> isDestroying (vo p) \<and> observedCarousels (vo p) k = Some False \<longrightarrow>
          carousels (onIntersection k True e1 (snd (openModal imgs i (Some k) e0 p))) k
            = Some (initialize e1 s1)"
    using b by (simp add: onIntersection_def openModal_vo)
  have w: "carousels (closeModalTimeout e2 (closeModal (snd (openModal imgs i (Some k) e0 p)))) k
          = Some (onFullscreenClose e2 s1)"
    using b by (simp add: closeModal_owner openModal_originalCarousel)
  have f: "\<not> destroyed s1" "\<not> initialized s1" "pausedByFullscreen s1" "\<not> viewportPaused s1"
    "hasFill s1 = hf" "shouldAutoStart s1"
    by (simp_all add: a newCarousel_def)
  have g: "initialized (initialize e1 s1)" "\<not> destroyed (initialize e1 s1)"
    "isInViewport (initialize e1 s1)" "\<not> viewportPaused (initialize e1 s1)"
    "hasFill (initialize e1 s1) = hf" "pausedByFullscreen (initialize e1 s1)"
    "shouldAutoStart (initialize e1 s1)"
    using f by (simp_all add: initialize_def validateState_def Let_def)
  have t: "hf \<longrightarrow> timerRunning (onFullscreenClose e2 (initialize e1 s1))"
  proof
    assume hf
    then have "hasFill (initialize e1 s1)" using g(5) by simp
    from onFullscreenClose_ctl(5) [OF g(2) g(1) this, of e2] g(3,4)
    show "timerRunning (onFullscreenClose e2 (initialize e1 s1))" by simp
  qed
  have n1: "\<not> timerRunning (run es s1)" "nothingScheduled (run es s1)"
    using r by (simp_all add: heldByOverlay_def nothingScheduled_def timerRunning_def)
  have n2: "\<not> timerRunning (initialize e1 s1)" "nothingScheduled (initialize e1 s1)"
    using hi by (simp_all add: heldByOverlay_def nothingScheduled_def timerRunning_def)
  show ?thesis
    by (intro conjI a b c d v w n1 n2 g(1) g(6) g(7) t)
qed

theorem fullscreen_before_visibility_witness:
  "\<not> timerRunning (run [(envAt 10, Initialize), (envAt 20, PauseForViewport),
        (envAt 30, ResumeFromViewportPause), (envAt 40, NextBtnClick), (envAt 50, FireTimeout 1)]
        (onFullscreenOpen (envAt 5) (newCarousel 4 True)))
   \<and> timerRunning (onFullscreenClose (envAt 60)
        (initialize (envAt 10) (onFullscreenOpen (envAt 5) (newCarousel 4 True))))
   \<and> map_option timerRunning
        (carousels (snd (openModal threeImages 0 (Some 0) (envAt 5)
            (initializeSingleCarousel 0 4 True (newPage True)))) 0) = Some False"
proof -
  let ?es = "[(envAt 10, Initialize), (envAt 20, PauseForViewport),
        (envAt 30, ResumeFromViewportPause), (envAt 40, NextBtnClick), (envAt 50, FireTimeout 1)]"
  let ?p = "initializeSingleCarousel 0 4 True (newPage True)"
  have o: "\<forall>x \<in> set ?es. overlayStaysOpen (snd x)"
    by (simp add: overlayStaysOpen_def)
  have c: "carousels ?p 0 = Some (newCarousel 4 True)"
    by (simp add: initializeSingleCarousel_def)
  note t = fullscreen_before_visibility [OF o refl c, where imgs = threeImages and i = 0
      and ?e0.0 = "envAt 5" and ?e1.0 = "envAt 10" and ?e2.0 = "envAt 60"]
  have n: "\<not> timerRunning (onFullscreenOpen (envAt 5) (newCarousel 4 True))"
    by code_simp
  have A: "\<not> timerRunning (run ?es (onFullscreenOpen (envAt 5) (newCarousel 4 True)))"
    using t by blast
  have B: "timerRunning (onFullscreenClose (envAt 60)
        (initialize (envAt 10) (onFullscreenOpen (envAt 5) (newCarousel 4 True))))"
    using t by blast
  have C0: "carousels (snd (openModal threeImages 0 (Some 0) (envAt 5) ?p)) 0
      = Some (onFullscreenOpen (envAt 5) (newCarousel 4 True))"
    using t by blast
  have C: "map_option timerRunning
        (carousels (snd (openModal threeImages 0 (Some 0) (envAt 5) ?p)) 0) = Some False"
    unfolding C0 using n by simp
  show ?thesis
    by (intro conjI A B C)
qed

text \<open>
  C4 as the code has it. A playing instance (it holds its fallback timeout, no pause flag is
  set, no auto-start is owed) paused \<open>el\<close> ms into the interval by a viewport exit or by
  \<^verbatim>\<open>pauseAutoplay\<close> has its bar frozen at \<open>el / intervalMs\<close>, and the matching resume
  restarts from there with \<open>max 16 (intervalMs - el)\<close> ms remaining, which is
  \<open>intervalMs - el\<close> up to the last 16 ms of the interval. The fullscreen overlay freezes
  the bar the same way, but closing it resets the progress and restarts a full interval.
\<close>

theorem pause_resume_keeps_elapsed:
  assumes "\<not> destroyed s" and "hasFill s" and "timer s \<noteq> None" and "startTs s \<noteq> 0"
    and "\<not> paused s" and "\<not> viewportPaused s" and "\<not> pausedByFullscreen s"
    and "\<not> shouldAutoStart s" and "initialized s" and "isInViewport s"
    and "now e1 - startTs s = el" and "0 \<le> el" and "el \<le> intervalMs"
  shows "pauseElapsed (pauseForViewport e1 s) = el
    \<and> timer (pauseForViewport e1 s) = None
    \<and> fillWidth (pauseForViewport e1 s) = Percent (el / intervalMs * 100)
    \<and> fillWidth (resumeFromViewportPause e2 (pauseForViewport e1 s))
        = Percent (el / intervalMs * 100)
    \<and> fillTransition (resumeFromViewportPause e2 (pauseForViewport e1 s))
        = Linear (max 16 (intervalMs - el))
    \<and> (\<exists>t c. timer (resumeFromViewportPause e2 (pauseForViewport e1 s)) = Some t
          \<and> (t, Fallback c, max 16 (intervalMs - el) + 200)
              \<in> set (timeouts (resumeFromViewportPause e2 (pauseForViewport e1 s))))
    \<and> pauseElapsed (pauseAutoplay e1 s) = el
    \<and> fillWidth (pauseAutoplay e1 s) = Percent (el / intervalMs * 100)
    \<and> fillTransition (resumeAutoplay e2 (pauseAutoplay e1 s)) = Linear (max 16 (intervalMs - el))
    \<and> pauseElapsed (onFullscreenOpen e1 s) = el
    \<and> fillWidth (onFullscreenOpen e1 s) = Percent (el / intervalMs * 100)
    \<and> fillTransition (onFullscreenClose e2 (onFullscreenOpen e1 s)) = Linear intervalMs
    \<and> (el \<le> intervalMs - 16 \<longrightarrow> max 16 (intervalMs - el) = intervalMs - el)"
proof -
  let ?p = "pauseForViewport e1 s"
  note fr = clamp_frac [OF assms(12,13)]
  have p0: "viewportPaused ?p" "timer ?p = None" "pauseElapsed ?p = el"
    "\<not> paused ?p" "\<not> pausedByFullscreen ?p"
    "\<not> shouldAutoStart ?p" "\<not> destroyed ?p" "hasFill ?p"
    using assms pauseForViewport_effect [OF assms(1) assms(6), of e1]
    by (simp_all add: clamp_id)
  have pw: "fillWidth ?p = Percent (el / intervalMs * 100)"
    using pauseForViewport_effect(5) [OF assms(1) assms(6) assms(2), of e1]
    unfolding p0(3) fr .
  note p = p0 pw
  let ?q = "?p\<lparr>viewportPaused := False, isInViewport := True\<rparr>"
  have r: "resumeFromViewportPause e2 ?p = startAuto e2 ?q"
    using p by (simp add: resumeFromViewportPause_def validateState_def Let_def)
  have q: "\<not> destroyed ?q" "\<not> viewportPaused ?q" "hasFill ?q" "pauseElapsed ?q = el"
    using p by simp_all
  have v1: "fillWidth (resumeFromViewportPause e2 ?p) = Percent (el / intervalMs * 100)"
    using startAuto_fill(1) [OF q(1-3), of e2] unfolding q(4) fr r .
  have v2: "fillTransition (resumeFromViewportPause e2 ?p) = Linear (max 16 (intervalMs - el))"
    using startAuto_fill(2) [OF q(1-3), of e2] q(4) by (simp add: r)
  have v3: "\<exists>t c. timer (resumeFromViewportPause e2 ?p) = Some t
          \<and> (t, Fallback c, max 16 (intervalMs - el) + 200)
              \<in> set (timeouts (resumeFromViewportPause e2 ?p))"
    using startAuto_scheduled [OF q(1-3), of e2] q(4) by (simp add: r)
  let ?m = "pauseAutoplay e1 s"
  have m0: "paused ?m" "pauseElapsed ?m = el"
    "\<not> viewportPaused ?m" "\<not> destroyed ?m" "hasFill ?m"
    using assms pauseAutoplay_effect [OF assms(1) assms(5), of e1]
    by (simp_all add: clamp_id)
  have mw: "fillWidth ?m = Percent (el / intervalMs * 100)"
    using pauseAutoplay_effect(4) [OF assms(1) assms(5) assms(2), of e1]
    unfolding m0(2) fr .
  note m = m0 mw
  let ?n = "?m\<lparr>paused := False\<rparr>"
  have rm: "resumeAutoplay e2 ?m = startAuto e2 ?n"
    using m by (simp add: resumeAutoplay_def validateState_def)
  have n: "\<not> destroyed ?n" "\<not> viewportPaused ?n" "hasFill ?n" "pauseElapsed ?n = el"
    using m by simp_all
  have m2: "fillTransition (resumeAutoplay e2 ?m) = Linear (max 16 (intervalMs - el))"
    using startAuto_fill(2) [OF n(1-3), of e2] n(4) by (simp add: rm)
  let ?s1 = "s\<lparr>pausedByFullscreen := True\<rparr>"
  have o: "onFullscreenOpen e1 s = pauseAutoplay e1 ?s1"
    using assms by (simp add: onFullscreenOpen_def validateState_def Let_def)
  have s1: "\<not> destroyed ?s1" "\<not> paused ?s1" using assms by simp_all
  let ?f = "onFullscreenOpen e1 s"
  have hs1: "hasFill ?s1" using assms(2) by simp
  have f0: "pauseElapsed ?f = el"
    "\<not> destroyed ?f" "initialized ?f" "isInViewport ?f" "hasFill ?f" "\<not> viewportPaused ?f"
    using assms pauseAutoplay_effect [OF s1, of e1]
    by (simp_all add: o clamp_id)
  have fw: "fillWidth ?f = Percent (el / intervalMs * 100)"
    using pauseAutoplay_effect(4) [OF s1 hs1, of e1]
    unfolding o [symmetric] f0(1) fr .
  note f = f0 fw
  let ?g = "completeProgressReset e2 (?f\<lparr>pausedByFullscreen := False, paused := False, shouldAutoStart := False\<rparr>)"
  have c: "onFullscreenClose e2 ?f = startAuto e2 ?g"
    using f by (simp add: onFullscreenClose_def validateState_def Let_def)
  have g: "\<not> destroyed ?g" "\<not> viewportPaused ?g" "hasFill ?g" "pauseElapsed ?g = 0"
    using f by simp_all
  have f3: "fillTransition (onFullscreenClose e2 ?f) = Linear intervalMs"
    using startAuto_fill(2) [OF g(1-3), of e2] g(4) by (simp add: c intervalMs_def)
  have z: "el \<le> intervalMs - 16 \<longrightarrow> max 16 (intervalMs - el) = intervalMs - el"
    by (simp add: max_def)
  from p v1 v2 v3 m m2 f f3 z show ?thesis by blast
qed

theorem pause_resume_keeps_elapsed_witness:
  "pauseElapsed (pauseForViewport (envAt 2100) playingAt100) = 2000
   \<and> fillWidth (pauseForViewport (envAt 2100) playingAt100) = Percent 40
   \<and> fillWidth (resumeFromViewportPause (envAt 12100)
        (pauseForViewport (envAt 2100) playingAt100)) = Percent 40
   \<and> fillTransition (resumeFromViewportPause (envAt 12100)
        (pauseForViewport (envAt 2100) playingAt100)) = Linear 3000
   \<and> fillTransition (onFullscreenClose (envAt 12100)
        (onFullscreenOpen (envAt 2100) playingAt100)) = Linear 5000"
proof -
  have h: "\<not> destroyed playingAt100" "hasFill playingAt100" "timer playingAt100 \<noteq> None"
    "startTs playingAt100 \<noteq> 0" "\<not> paused playingAt100" "\<not> viewportPaused playingAt100"
    "\<not> pausedByFullscreen playingAt100" "\<not> shouldAutoStart playingAt100"
    "initialized playingAt100" "isInViewport playingAt100"
    by code_simp+
  have el: "now (envAt 2100) - startTs playingAt100 = 2000"
    by code_simp
  have b: "(0::real) \<le> 2000" "2000 \<le> intervalMs"
    by (simp_all add: intervalMs_def)
  from pause_resume_keeps_elapsed [OF h el b, of "envAt 12100"]
  show ?thesis by (simp add: intervalMs_def)
qed

text \<open>
  C4 as stated fails: paused by a viewport exit 4990 ms into the interval, the resume
  schedules 16 ms, not the 10 ms that remain; and paused by the fullscreen overlay 2000 ms
  into the interval, closing the overlay restarts a full interval of 5000 ms.
\<close>

theorem resume_remaining_counterexample:
  "pauseElapsed (pauseForViewport (envAt 5090) playingAt100) = 4990
   \<and> fillTransition (resumeFromViewportPause (envAt 9000)
        (pauseForViewport (envAt 5090) playingAt100)) = Linear 16
   \<and> fillTransition (resumeFromViewportPause (envAt 9000)
        (pauseForViewport (envAt 5090) playingAt100)) \<noteq> Linear (intervalMs - 4990)
   \<and> pauseElapsed (onFullscreenOpen (envAt 2100) playingAt100) = 2000
   \<and> fillTransition (onFullscreenClose (envAt 12100)
        (onFullscreenOpen (envAt 2100) playingAt100)) = Linear 5000
   \<and> fillTransition (onFullscreenClose (envAt 12100)
        (onFullscreenOpen (envAt 2100) playingAt100)) \<noteq> Linear (intervalMs - 2000)"
proof -
  have a: "pauseElapsed (pauseForViewport (envAt 5090) playingAt100) = 4990"
    by code_simp
  have b: "fillTransition (resumeFromViewportPause (envAt 9000)
        (pauseForViewport (envAt 5090) playingAt100)) = Linear 16"
    by code_simp
  have c: "pauseElapsed (onFullscreenOpen (envAt 2100) playingAt100) = 2000"
    by code_simp
  have d: "fillTransition (onFullscreenClose (envAt 12100)
        (onFullscreenOpen (envAt 2100) playingAt100)) = Linear 5000"
    by code_simp
  from a b c d show ?thesis by (simp add: intervalMs_def)
qed

text \<open>
  C5 as the code has it. Teardown is idempotent and terminal: a second \<^verbatim>\<open>cleanup\<close>, or any number of them,
  leaves the state of the first; \<open>destroyed\<close> stays set whatever happens next; every
  operation and DOM handler of a destroyed instance returns the state unchanged; a stale
  \<^verbatim>\<open>transitionend\<close> handler changes nothing, and a stale timeout or animation-frame callback
  changes nothing but the handle bookkeeping of its last lines.
\<close>

theorem teardown_terminal:
  "cleanup e2 (cleanup e1 s) = cleanup e1 s
   \<and> ((cleanup e1) ^^ Suc k) s = cleanup e1 s
   \<and> destroyed (run es (cleanup e1 s))
   \<and> (destroyed s \<and> publicEvent ev \<longrightarrow> step e ev s = s)
   \<and> (destroyed s \<longrightarrow>
        advance c e s = s
        \<and> progressEndHandlerCallback c w e s = s
        \<and> fallbackCallback c e s =
            s\<lparr>cleanupTimeouts := (case timer s of None \<Rightarrow> cleanupTimeouts s
                                    | Some t \<Rightarrow> removeAll t (cleanupTimeouts s)),
              timer := None\<rparr>
        \<and> rafCallback e s =
            s\<lparr>cleanupRafs := (case animationFrame s of None \<Rightarrow> cleanupRafs s
                                | Some r \<Rightarrow> removeAll r (cleanupRafs s)),
              animationFrame := None\<rparr>
        \<and> initTimerCallback h e s = s\<lparr>cleanupTimeouts := removeAll h (cleanupTimeouts s)\<rparr>)"
proof -
  have a: "destroyed (run es (cleanup e1 s))"
    by (rule run_destroyed) simp
  have b: "destroyed s \<and> publicEvent ev \<longrightarrow> step e ev s = s"
    by (simp add: step_public_destroyed)
  have c: "destroyed s \<longrightarrow> progressEndHandlerCallback c w e s = s"
    by (simp add: progressEndHandlerCallback_def)
  from a b c show ?thesis
    using cleanup_twice cleanup_funpow fallbackCallback_stale rafCallback_stale
      initTimerCallback_stale
    by simp
qed

theorem teardown_terminal_witness:
  "destroyed (run staleFallbackTrace (newCarousel 4 True))
   \<and> step (envAt 8000) Initialize (run staleFallbackTrace (newCarousel 4 True))
       = run staleFallbackTrace (newCarousel 4 True)
   \<and> cleanup (envAt 8000) (run staleFallbackTrace (newCarousel 4 True))
       = run staleFallbackTrace (newCarousel 4 True)
   \<and> advance 8 (envAt 8000) (run staleFallbackTrace (newCarousel 4 True))
       = run staleFallbackTrace (newCarousel 4 True)"
proof -
  let ?s = "run staleFallbackTrace (newCarousel 4 True)"
  have d: "destroyed ?s" by code_simp
  have p: "publicEvent Initialize" "publicEvent Cleanup" by (simp_all add: publicEvent_def)
  from teardown_terminal [where s = ?s and ev = Initialize and e = "envAt 8000" and c = 8]
    teardown_terminal [where s = ?s and ev = Cleanup and e = "envAt 8000" and c = 8] d p
  show ?thesis by simp
qed

text \<open>
  C5 as stated fails at one point: a fallback timeout whose handle was overwritten survives
  \<^verbatim>\<open>cleanup\<close>, and when it fires on the destroyed instance it sets \<open>timer\<close> to null.
\<close>

theorem stale_fallback_clears_timer:
  "destroyed (run staleFallbackTrace (newCarousel 4 True))
   \<and> timer (run staleFallbackTrace (newCarousel 4 True)) = Some 10
   \<and> map_of (timeouts (run staleFallbackTrace (newCarousel 4 True))) 7 = Some (Fallback 5, 5200)
   \<and> timer (step (envAt 9000) (FireTimeout 7) (run staleFallbackTrace (newCarousel 4 True))) = None
   \<and> step (envAt 9000) (FireTimeout 7) (run staleFallbackTrace (newCarousel 4 True))
       \<noteq> run staleFallbackTrace (newCarousel 4 True)"
proof -
  let ?s = "run staleFallbackTrace (newCarousel 4 True)"
  have a: "destroyed ?s" by code_simp
  have b: "timer ?s = Some 10" by code_simp
  have c: "map_of (timeouts ?s) 7 = Some (Fallback 5, 5200)" by code_simp
  have d: "timer (step (envAt 9000) (FireTimeout 7) ?s) = None" by code_simp
  from b d have "step (envAt 9000) (FireTimeout 7) ?s \<noteq> ?s" by auto
  with a b c d show ?thesis by simp
qed

text \<open>
  C6 as the code has it. Where the IntersectionObserver cannot be constructed, the error is
  caught: \<^verbatim>\<open>initObserver\<close> returns no observer and \<^verbatim>\<open>observe\<close> returns without registering
  the carousel. The instance exists with nothing scheduled, and no observer entry ever
  reaches it. Whatever follows on the page (intersection entries, clicks, keys, overlay
  calls, teardown, callbacks of the browser; \<^verbatim>\<open>initialize\<close>, \<^verbatim>\<open>pauseForViewport\<close> and
  \<^verbatim>\<open>resumeFromViewportPause\<close> are called by the observer alone), no observer exists and
  the instance is never initialized and never paused for the viewport. Autoplay does not
  start by itself, but the first click on next starts the timer of an instance that has a
  progress bar.
\<close>

theorem unsupported_observer_registers_nothing:
  assumes "\<not> ioSupported p" and "\<not> observer (vo p)" and "0 < n"
    and "\<forall>x \<in> set es. withoutObserverCalls (snd x)"
  shows "newIntersectionObserver False = Inl ReferenceError
    \<and> initObserver False (vo p) = (False, vo p)
    \<and> vo (initializeSingleCarousel k n hf p) = vo p
    \<and> observedCarousels (vo (initializeSingleCarousel k n hf p)) = observedCarousels (vo p)
    \<and> carousels (initializeSingleCarousel k n hf p) k = Some (newCarousel n hf)
    \<and> runEntries xs (initializeSingleCarousel k n hf p) = initializeSingleCarousel k n hf p
    \<and> map_option initialized (carousels (runEntries xs (initializeSingleCarousel k n hf p)) k)
        = Some False
    \<and> map_option viewportPaused (carousels (runEntries xs (initializeSingleCarousel k n hf p)) k)
        = Some False
    \<and> map_option timerRunning (carousels (runEntries xs (initializeSingleCarousel k n hf p)) k)
        = Some False
    \<and> map_option nothingScheduled (carousels (initializeSingleCarousel k n hf p) k) = Some True
    \<and> \<not> observer (vo (runPage es (initializeSingleCarousel k n hf p)))
    \<and> map_option initialized (carousels (runPage es (initializeSingleCarousel k n hf p)) k)
        = Some False
    \<and> map_option viewportPaused (carousels (runPage es (initializeSingleCarousel k n hf p)) k)
        = Some False
    \<and> (hf \<longrightarrow> map_option timerRunning
          (carousels (carouselEvent k e NextBtnClick (initializeSingleCarousel k n hf p)) k)
        = Some True)"
proof -
  let ?p = "initializeSingleCarousel k n hf p"
  have i: "initObserver False (vo p) = (False, vo p)"
    using assms(2) by (cases "vo p") (simp add: initObserver_def newIntersectionObserver_def)
  have v: "vo ?p = vo p"
    using assms(1-3) by (simp add: initializeSingleCarousel_def observe_unsupported)
  have c: "carousels ?p k = Some (newCarousel n hf)"
    using assms(1-3) by (simp add: initializeSingleCarousel_def)
  have r: "runEntries xs ?p = ?p"
    using v assms(2) by (simp add: runEntries_no_observer)
  have old: "newIntersectionObserver False = Inl ReferenceError
    \<and> initObserver False (vo p) = (False, vo p)
    \<and> vo ?p = vo p
    \<and> observedCarousels (vo ?p) = observedCarousels (vo p)
    \<and> carousels ?p k = Some (newCarousel n hf)
    \<and> runEntries xs ?p = ?p
    \<and> map_option initialized (carousels (runEntries xs ?p) k) = Some False
    \<and> map_option viewportPaused (carousels (runEntries xs ?p) k) = Some False
    \<and> map_option timerRunning (carousels (runEntries xs ?p) k) = Some False"
    using i v c r
    by (simp add: newIntersectionObserver_def newCarousel_def timerRunning_def)
  have ns: "map_option nothingScheduled (carousels ?p k) = Some True"
    by (simp add: c nothingScheduled_def newCarousel_def)
  have u: "unobserved k ?p"
    using v c assms(2) by (simp add: unobserved_def newCarousel_def)
  have ur: "unobserved k (runPage es ?p)"
    using u assms(4) by (rule unobserved_runPage)
  have click: "hf \<longrightarrow> map_option timerRunning
          (carousels (carouselEvent k e NextBtnClick ?p) k) = Some True"
  proof
    assume hf
    with c have "carousels ?p k = Some (newCarousel n True)" by simp
    then show "map_option timerRunning
          (carousels (carouselEvent k e NextBtnClick ?p) k) = Some True"
      using nextBtnClick_starts [OF assms(3), of e] by (simp add: carouselEvent_def)
  qed
  from ur have u3: "\<not> observer (vo (runPage es ?p))"
    "map_option initialized (carousels (runPage es ?p) k) = Some False"
    "map_option viewportPaused (carousels (runPage es ?p) k) = Some False"
    by (simp_all add: unobserved_def)
  from old ns u3 click show ?thesis by blast
qed

theorem unsupported_observer_registers_nothing_witness:
  "carousels (runEntries [(0, True, envAt 10), (0, False, envAt 20), (0, True, envAt 30)]
       (initializeSingleCarousel 0 4 True (newPage False))) 0 = Some (newCarousel 4 True)
   \<and> observedCarousels (vo (initializeSingleCarousel 0 4 True (newPage False))) 0 = None
   \<and> map_option initialized
        (carousels (runPage [(envAt 10, Entry 0 True), (envAt 20, Instance 0 NextBtnClick),
            (envAt 5040, Instance 0 (FireTransitionEnd 1 True)), (envAt 6000, Entry 0 False)]
          (initializeSingleCarousel 0 4 True (newPage False))) 0) = Some False
   \<and> map_option timerRunning
        (carousels (carouselEvent 0 (envAt 20) NextBtnClick
          (initializeSingleCarousel 0 4 True (newPage False))) 0) = Some True"
proof -
  let ?es = "[(envAt 10, Entry 0 True), (envAt 20, Instance 0 NextBtnClick),
            (envAt 5040, Instance 0 (FireTransitionEnd 1 True)), (envAt 6000, Entry 0 False)]"
  let ?xs = "[(0, True, envAt 10), (0, False, envAt 20), (0, True, envAt 30)]"
  let ?p = "initializeSingleCarousel 0 4 True (newPage False)"
  have a: "\<not> ioSupported (newPage False)" "\<not> observer (vo (newPage False))"
    "observedCarousels (vo (newPage False)) 0 = None"
    by (simp_all add: newPage_def)
  have n: "(0::nat) < 4" by simp
  have w: "\<forall>x \<in> set ?es. withoutObserverCalls (snd x)"
    by (simp add: observerCall_def)
  note t = unsupported_observer_registers_nothing [OF a(1) a(2) n w,
      where k = 0 and hf = True and xs = ?xs and e = "envAt 20"]
  have A: "carousels (runEntries ?xs ?p) 0 = Some (newCarousel 4 True)"
    using t by simp
  have B: "observedCarousels (vo ?p) 0 = None"
    using t a(3) by simp
  have C: "map_option initialized (carousels (runPage ?es ?p) 0) = Some False"
    using t by blast
  have D: "map_option timerRunning (carousels (carouselEvent 0 (envAt 20) NextBtnClick ?p) 0)
      = Some True"
    using t by blast
  show ?thesis
    by (intro conjI A B C D)
qed

text \<open>
  C6 as stated fails: in the unsupported environment the registered instance is not
  initialized, neither at registration nor when an entry for it would arrive. In the
  supported environment the same entry does initialize it.
\<close>

theorem unsupported_observer_never_initializes:
  "map_option initialized
      (carousels (initializeSingleCarousel 0 4 True (newPage False)) 0) = Some False
   \<and> map_option initialized
      (carousels (onIntersection 0 True (envAt 10)
          (initializeSingleCarousel 0 4 True (newPage False))) 0) = Some False
   \<and> map_option initialized
      (carousels (onIntersection 0 True (envAt 10)
          (initializeSingleCarousel 0 4 True (newPage True))) 0) = Some True"
  by (simp add: initializeSingleCarousel_def newPage_def observe_def initObserver_def
      newIntersectionObserver_def onIntersection_def newCarousel_def initialize_def
      validateState_def Let_def)

text \<open>
  C7. From a valid position, \<^verbatim>\<open>next\<close> moves to \<open>(index + 1) mod slideCount\<close> and
  \<^verbatim>\<open>prev\<close> to \<open>(index - 1) mod slideCount\<close>, so the last slide is followed by slide 0 and
  slide 0 preceded by the last; a dot click and the automatic advance wrap the same way, and
  after any sequence of events the index is still a valid position.
\<close>

theorem slide_change_wraps:
  assumes "1 \<le> nslides s" and "0 \<le> index s" and "index s < int (nslides s)"
    and "\<not> destroyed s"
  shows "index (nextSlide e s) = (index s + 1) mod int (nslides s)
    \<and> index (prevSlide e s) = (index s - 1) mod int (nslides s)
    \<and> (index s = int (nslides s) - 1 \<longrightarrow> index (nextSlide e s) = 0)
    \<and> (index s = 0 \<longrightarrow> index (prevSlide e s) = int (nslides s) - 1)
    \<and> index (dotClick idx e s) = int idx mod int (nslides s)
    \<and> (c \<notin> set (advancedCycles s) \<and> \<not> viewportPaused s \<and> \<not> paused s \<longrightarrow>
          index (advance c e s) = (index s + 1) mod int (nslides s))
    \<and> 0 \<le> index (run es s) \<and> index (run es s) < int (nslides (run es s))"
proof -
  have n: "0 < nslides s" using assms(1) by simp
  have a: "index (nextSlide e s) = (index s + 1) mod int (nslides s)"
    using assms n wrap_eq [of "nslides s" "index s + 1"] by (simp add: nextSlide_index)
  have b: "index (prevSlide e s) = (index s - 1) mod int (nslides s)"
    using assms n wrap_eq [of "nslides s" "index s - 1"] by (simp add: nextSlide_index)
  have d: "index (dotClick idx e s) = int idx mod int (nslides s)"
    using assms n wrap_eq [of "nslides s" "int idx"] by (simp add: nextSlide_index)
  have f: "c \<notin> set (advancedCycles s) \<and> \<not> viewportPaused s \<and> \<not> paused s \<longrightarrow>
          index (advance c e s) = (index s + 1) mod int (nslides s)"
    using assms n wrap_eq [of "nslides s" "index s + 1"] by (simp add: advance_index)
  have a0: "index s = int (nslides s) - 1 \<longrightarrow> index (nextSlide e s) = 0"
    using a by simp
  have b0: "index s = 0 \<longrightarrow> index (prevSlide e s) = int (nslides s) - 1"
    using b n by (simp add: zmod_minus1)
  have "inRange s" using assms by (simp add: inRange_def)
  then have "inRange (run es s)" by (rule ir_run)
  then have r: "0 \<le> index (run es s) \<and> index (run es s) < int (nslides (run es s))"
    by (simp add: inRange_def)
  from a b a0 b0 d f r show ?thesis by blast
qed

theorem slide_change_wraps_witness:
  "index (nextSlide (envAt 200) (playingAt100\<lparr>index := 3\<rparr>)) = 0
   \<and> index (prevSlide (envAt 200) playingAt100) = 3
   \<and> index (run [(envAt 200, PrevBtnClick), (envAt 300, DotClick 6)] playingAt100) = 2"
proof -
  have h: "1 \<le> nslides playingAt100" "0 \<le> index playingAt100"
    "index playingAt100 < int (nslides playingAt100)" "\<not> destroyed playingAt100"
    "index playingAt100 = 0" "nslides playingAt100 = 4"
    by code_simp+
  have h3: "1 \<le> nslides (playingAt100\<lparr>index := 3\<rparr>)" "0 \<le> index (playingAt100\<lparr>index := 3\<rparr>)"
    "index (playingAt100\<lparr>index := 3\<rparr>) < int (nslides (playingAt100\<lparr>index := 3\<rparr>))"
    "\<not> destroyed (playingAt100\<lparr>index := 3\<rparr>)"
    using h by simp_all
  have r: "index (run [(envAt 200, PrevBtnClick), (envAt 300, DotClick 6)] playingAt100) = 2"
    by code_simp
  from slide_change_wraps [OF h3, of "envAt 200"] slide_change_wraps [OF h(1-4), of "envAt 200"] h r
  show ?thesis by simp
qed

text \<open>
  C8. In every state reachable from construction, and after a pause or a start applied there
  at any clock value, the recorded elapsed time lies in \<open>[0, intervalMs]\<close> and a percentage
  width of the progress bar lies in \<open>[0, 100]\<close>; the width a pause or a start writes is the
  clamped fraction of the recorded elapsed time.
\<close>

theorem elapsed_and_fraction_clamped:
  assumes "s = run es (newCarousel n hf)"
    and "t = pauseAutoplay e s \<or> t = pauseForViewport e s \<or> t = startAuto e s"
  shows "0 \<le> pauseElapsed t \<and> pauseElapsed t \<le> intervalMs
    \<and> (\<forall>p. fillWidth t = Percent p \<longrightarrow> 0 \<le> p \<and> p \<le> 100)
    \<and> (hasFill s \<and> \<not> destroyed s \<and> \<not> paused s \<longrightarrow>
         pauseElapsed (pauseAutoplay e s)
           = max 0 (min intervalMs (if startTs s \<noteq> 0 then now e - startTs s else 0))
         \<and> fillWidth (pauseAutoplay e s)
           = Percent (max 0 (min 1 (pauseElapsed (pauseAutoplay e s) / intervalMs)) * 100))
    \<and> (hasFill s \<and> \<not> destroyed s \<and> \<not> viewportPaused s \<longrightarrow>
         fillWidth (pauseForViewport e s)
           = Percent (max 0 (min 1 (pauseElapsed (pauseForViewport e s) / intervalMs)) * 100)
         \<and> fillWidth (startAuto e s)
           = Percent (max 0 (min 1 (pauseElapsed (startAuto e s) / intervalMs)) * 100))"
proof -
  have "wellClamped s"
    using assms(1) wc_run [OF wc_new] by simp
  then have "wellClamped t"
    using assms(2) wc_pauseAutoplay wc_pauseForViewport wc_startAuto by blast
  then have a: "0 \<le> pauseElapsed t \<and> pauseElapsed t \<le> intervalMs
      \<and> (\<forall>p. fillWidth t = Percent p \<longrightarrow> 0 \<le> p \<and> p \<le> 100)"
    by (auto simp add: wellClamped_def)
  have b: "hasFill s \<and> \<not> destroyed s \<and> \<not> paused s \<longrightarrow>
         pauseElapsed (pauseAutoplay e s)
           = max 0 (min intervalMs (if startTs s \<noteq> 0 then now e - startTs s else 0))
         \<and> fillWidth (pauseAutoplay e s)
           = Percent (max 0 (min 1 (pauseElapsed (pauseAutoplay e s) / intervalMs)) * 100)"
    by (simp add: pauseAutoplay_def validateState_def Let_def)
  have c: "hasFill s \<and> \<not> destroyed s \<and> \<not> viewportPaused s \<longrightarrow>
         fillWidth (pauseForViewport e s)
           = Percent (max 0 (min 1 (pauseElapsed (pauseForViewport e s) / intervalMs)) * 100)
         \<and> fillWidth (startAuto e s)
           = Percent (max 0 (min 1 (pauseElapsed (startAuto e s) / intervalMs)) * 100)"
    by (simp add: pauseForViewport_def validateState_def Let_def startAuto_fill)
  from a b c show ?thesis by blast
qed

theorem elapsed_and_fraction_clamped_witness:
  "pauseElapsed (pauseAutoplay (envAt 999999) playingAt100) = 5000
   \<and> fillWidth (pauseAutoplay (envAt 999999) playingAt100) = Percent 100
   \<and> pauseElapsed (pauseAutoplay (envAt 999999) playingAt100) \<le> intervalMs"
proof -
  have a: "playingAt100 = run [(envAt 0, Initialize), (envAt 100, FireTimeout 1)] (newCarousel 4 True)"
    by (simp add: playingAt100_def)
  have b: "pauseElapsed (pauseAutoplay (envAt 999999) playingAt100) = 5000"
    by code_simp
  have c: "fillWidth (pauseAutoplay (envAt 999999) playingAt100) = Percent 100"
    by code_simp
  from elapsed_and_fraction_clamped [OF a, of "pauseAutoplay (envAt 999999) playingAt100" "envAt 999999"] b c
  show ?thesis by simp
qed

text \<open>
  C9. \<^verbatim>\<open>nextImage\<close> and \<^verbatim>\<open>prevImage\<close> leave every carousel instance, the observer, the
  image list and the owner reference as they were; with more than one image they move the
  modal's own index by one modulo the length of its list and show that image, and with at
  most one image they do nothing. Events of a carousel leave the modal as it was.
\<close>

theorem lightbox_navigation_frame:
  "carousels (snd (nextImage p)) = carousels p
   \<and> carousels (snd (prevImage p)) = carousels p
   \<and> getCurrentIndex k (snd (nextImage p)) = getCurrentIndex k p
   \<and> getCurrentIndex k (snd (prevImage p)) = getCurrentIndex k p
   \<and> vo (snd (nextImage p)) = vo p \<and> vo (snd (prevImage p)) = vo p
   \<and> currentImages (fs (snd (nextImage p))) = currentImages (fs p)
   \<and> currentImages (fs (snd (prevImage p))) = currentImages (fs p)
   \<and> originalCarousel (fs (snd (nextImage p))) = originalCarousel (fs p)
   \<and> originalCarousel (fs (snd (prevImage p))) = originalCarousel (fs p)
   \<and> (0 \<le> currentIndex (fs p) \<and> 1 < length (currentImages (fs p)) \<longrightarrow>
        fst (nextImage p) = None \<and> fst (prevImage p) = None
        \<and> currentIndex (fs (snd (nextImage p)))
            = (currentIndex (fs p) + 1) mod int (length (currentImages (fs p)))
        \<and> currentIndex (fs (snd (prevImage p)))
            = (currentIndex (fs p) - 1) mod int (length (currentImages (fs p)))
        \<and> imageSrc (fs (snd (nextImage p)))
            = src (currentImages (fs p)
                ! nat ((currentIndex (fs p) + 1) mod int (length (currentImages (fs p)))))
        \<and> imageSrc (fs (snd (prevImage p)))
            = src (currentImages (fs p)
                ! nat ((currentIndex (fs p) - 1) mod int (length (currentImages (fs p))))))
   \<and> (length (currentImages (fs p)) \<le> 1 \<longrightarrow>
        nextImage p = (None, p) \<and> prevImage p = (None, p))
   \<and> fs (carouselEvent k e ev p) = fs p
   \<and> fs (onIntersection k b e p) = fs p"
proof -
  have a: "length (currentImages (fs p)) \<le> 1 \<longrightarrow>
        nextImage p = (None, p) \<and> prevImage p = (None, p)"
    by (simp add: nextImage_def prevImage_def)
  show ?thesis
    using a nextImage_index [of p] prevImage_index [of p]
    by (simp add: nextImage_frame prevImage_frame getCurrentIndex_def carouselEvent_fs
        onIntersection_fs)
qed

theorem lightbox_navigation_frame_witness:
  "currentIndex (fs lightboxPage) = 2
   \<and> getCurrentIndex 0 lightboxPage = Some 0
   \<and> currentIndex (fs (snd (nextImage lightboxPage))) = 0
   \<and> imageSrc (fs (snd (nextImage lightboxPage))) = ''a.png''
   \<and> currentIndex (fs (snd (prevImage lightboxPage))) = 1
   \<and> getCurrentIndex 0 (snd (nextImage lightboxPage)) = Some 0
   \<and> fst (nextImage lightboxPage) = None"
proof -
  have a: "currentIndex (fs lightboxPage) = 2" by code_simp
  have b: "currentImages (fs lightboxPage) = threeImages" by code_simp
  have c: "getCurrentIndex 0 lightboxPage = Some 0" by code_simp
  have d: "length threeImages = 3" "src (threeImages ! 0) = ''a.png''"
    by (simp_all add: threeImages_def)
  from lightbox_navigation_frame [of lightboxPage 0] a b c d
  show ?thesis by simp
qed

text \<open>
  C10. \<^verbatim>\<open>startAuto\<close> schedules the next advance \<open>max 16 (intervalMs - pauseElapsed)\<close> ms
  ahead: that is the duration of the bar's transition, whose end advances the slide, with
  the fallback timeout 200 ms later; in the first variant it is the delay of the timeout
  itself. The value is at least 16, also when the elapsed time is the whole interval.
\<close>

theorem autoplay_delay_at_least_16ms:
  "(\<not> destroyed s \<and> \<not> viewportPaused s \<and> hasFill s \<longrightarrow>
      fillTransition (startAuto e s) = Linear (max 16 (intervalMs - pauseElapsed s))
      \<and> (\<exists>t c. timer (startAuto e s) = Some t
            \<and> (t, Fallback c, max 16 (intervalMs - pauseElapsed s) + 200)
                \<in> set (timeouts (startAuto e s))))
   \<and> (\<not> viewportPaused1 s1 \<longrightarrow>
      (\<exists>t. timer1 (startAuto1 e w s1) = Some t
            \<and> (t, max 16 (intervalMs - pauseElapsed1 s1)) \<in> set (timeouts1 (startAuto1 e w s1))))
   \<and> 16 \<le> max 16 (intervalMs - pauseElapsed s)
   \<and> 16 \<le> max 16 (intervalMs - pauseElapsed1 s1)
   \<and> (pauseElapsed s = intervalMs \<longrightarrow> max 16 (intervalMs - pauseElapsed s) = 16)"
proof -
  have a: "\<not> destroyed s \<and> \<not> viewportPaused s \<and> hasFill s \<longrightarrow>
      fillTransition (startAuto e s) = Linear (max 16 (intervalMs - pauseElapsed s))
      \<and> (\<exists>t c. timer (startAuto e s) = Some t
            \<and> (t, Fallback c, max 16 (intervalMs - pauseElapsed s) + 200)
                \<in> set (timeouts (startAuto e s)))"
    using startAuto_fallback [of s e] by (auto simp add: startAuto_fill startAuto_timer)
  have p: "pauseElapsed1 (stopAuto1 e w s1) = pauseElapsed1 s1"
    by (simp add: stopAuto1_def Let_def split: option.splits)
  have b: "\<not> viewportPaused1 s1 \<longrightarrow>
      (\<exists>t. timer1 (startAuto1 e w s1) = Some t
            \<and> (t, max 16 (intervalMs - pauseElapsed1 s1)) \<in> set (timeouts1 (startAuto1 e w s1)))"
    by (simp add: startAuto1_def Let_def p)
  from a b show ?thesis by simp
qed

theorem autoplay_delay_at_least_16ms_witness:
  "fillTransition (startAuto (envAt 1000000)
        ((pauseAutoplay (envAt 999999) playingAt100)\<lparr>paused := False\<rparr>)) = Linear 16
   \<and> (\<exists>t. timer1 (startAuto1 (envAt 1000000) 300 legacyPaused) = Some t
         \<and> (t, 16) \<in> set (timeouts1 (startAuto1 (envAt 1000000) 300 legacyPaused)))"
proof -
  let ?s = "(pauseAutoplay (envAt 999999) playingAt100)\<lparr>paused := False\<rparr>"
  have h: "\<not> destroyed ?s \<and> \<not> viewportPaused ?s \<and> hasFill ?s"
    by code_simp
  have p: "pauseElapsed ?s = 5000"
    by code_simp
  have q: "\<not> viewportPaused1 legacyPaused" "pauseElapsed1 legacyPaused = 5000"
    by (simp_all add: legacyPaused_def)
  from autoplay_delay_at_least_16ms [of ?s "envAt 1000000" legacyPaused 300] h p q
  show ?thesis by (simp add: intervalMs_def)
qed


end
